theory Spec2Isabelle
  imports Complex_Main
begin

section \<open>JavaScript numbers\<close>

text \<open>
  The programs compute with JavaScript numbers. Spins, coordinates and counters are
  small integers and are modelled by \<open>int\<close> and \<open>nat\<close>. Wherever the code divides,
  exponentiates or takes a square root, the special values matter, so those results
  are values of \<open>jsnum\<close>: a finite number, one of the two infinities, or NaN. A finite
  result within the range is taken as the exact real (rounding inside the range is
  not modelled); a result beyond the range of the finite numbers overflows to an
  infinity, an exponential below the smallest positive number underflows, and zero
  is the positive zero.
\<close>

datatype jsnum = Fin real | PosInf | NegInf | NaN

definition MAX_VALUE :: real where
  "MAX_VALUE = (2 - 1 / 2 ^ 52) * 2 ^ 1023"

text \<open>
  Round-to-nearest at the top of the range: a result whose magnitude reaches
  \<open>MAX_VALUE\<close> plus half a unit in the last place becomes an infinity, one between
  \<open>MAX_VALUE\<close> and that threshold becomes \<open>MAX_VALUE\<close>.
\<close>

definition threshold :: real where
  "threshold = (2 - 1 / 2 ^ 53) * 2 ^ 1023"

definition overflow :: "real \<Rightarrow> jsnum" where
  "overflow r =
     (if r \<ge> threshold then PosInf
      else if r \<le> - threshold then NegInf
      else if r > MAX_VALUE then Fin MAX_VALUE
      else if r < - MAX_VALUE then Fin (- MAX_VALUE)
      else Fin r)"

fun js_neg :: "jsnum \<Rightarrow> jsnum" where
  "js_neg (Fin a) = Fin (- a)"
| "js_neg PosInf = NegInf"
| "js_neg NegInf = PosInf"
| "js_neg NaN = NaN"

fun js_add :: "jsnum \<Rightarrow> jsnum \<Rightarrow> jsnum" where
  "js_add NaN _ = NaN"
| "js_add _ NaN = NaN"
| "js_add (Fin a) (Fin b) = overflow (a + b)"
| "js_add PosInf NegInf = NaN"
| "js_add NegInf PosInf = NaN"
| "js_add PosInf _ = PosInf"
| "js_add NegInf _ = NegInf"
| "js_add (Fin a) PosInf = PosInf"
| "js_add (Fin a) NegInf = NegInf"

definition js_sub :: "jsnum \<Rightarrow> jsnum \<Rightarrow> jsnum" where
  "js_sub a b = js_add a (js_neg b)"

fun js_mul :: "jsnum \<Rightarrow> jsnum \<Rightarrow> jsnum" where
  "js_mul NaN _ = NaN"
| "js_mul _ NaN = NaN"
| "js_mul (Fin a) (Fin b) = overflow (a * b)"
| "js_mul (Fin a) PosInf = (if a = 0 then NaN else if a > 0 then PosInf else NegInf)"
| "js_mul (Fin a) NegInf = (if a = 0 then NaN else if a > 0 then NegInf else PosInf)"
| "js_mul PosInf (Fin b) = (if b = 0 then NaN else if b > 0 then PosInf else NegInf)"
| "js_mul NegInf (Fin b) = (if b = 0 then NaN else if b > 0 then NegInf else PosInf)"
| "js_mul PosInf PosInf = PosInf"
| "js_mul NegInf NegInf = PosInf"
| "js_mul PosInf NegInf = NegInf"
| "js_mul NegInf PosInf = NegInf"

fun js_div :: "jsnum \<Rightarrow> jsnum \<Rightarrow> jsnum" where
  "js_div NaN _ = NaN"
| "js_div _ NaN = NaN"
| "js_div (Fin a) (Fin b) =
     (if b = 0 then (if a = 0 then NaN else if a > 0 then PosInf else NegInf)
      else overflow (a / b))"
| "js_div (Fin a) PosInf = Fin 0"
| "js_div (Fin a) NegInf = Fin 0"
| "js_div PosInf (Fin b) = (if b \<ge> 0 then PosInf else NegInf)"
| "js_div NegInf (Fin b) = (if b \<ge> 0 then NegInf else PosInf)"
| "js_div PosInf _ = NaN"
| "js_div NegInf _ = NaN"

text \<open>
  \<open>Number.MIN_VALUE\<close>, the smallest positive number. Round-to-nearest at the
  bottom of the range: a positive result of at most half of it becomes 0, one
  between that and \<open>MIN_VALUE\<close> becomes \<open>MIN_VALUE\<close>.
\<close>

definition MIN_VALUE :: real where
  "MIN_VALUE = 1 / 2 ^ 1074"

text \<open>
  \<open>Math.exp\<close>, \<open>Math.sqrt\<close>, \<open>Math.abs\<close>, \<open>Math.min\<close> and the comparison \<open><\<close>.
  \<open>Math.exp\<close> is the real exponential, rounded at both ends of the range: it
  underflows to 0 and overflows to \<open>Infinity\<close>.
\<close>

fun js_exp :: "jsnum \<Rightarrow> jsnum" where
  "js_exp (Fin a) =
     (if exp a \<le> MIN_VALUE / 2 then Fin 0
      else if exp a < MIN_VALUE then Fin MIN_VALUE
      else overflow (exp a))"
| "js_exp PosInf = PosInf"
| "js_exp NegInf = Fin 0"
| "js_exp NaN = NaN"

fun js_sqrt :: "jsnum \<Rightarrow> jsnum" where
  "js_sqrt (Fin a) = (if a < 0 then NaN else Fin (sqrt a))"
| "js_sqrt PosInf = PosInf"
| "js_sqrt NegInf = NaN"
| "js_sqrt NaN = NaN"

fun js_abs :: "jsnum \<Rightarrow> jsnum" where
  "js_abs (Fin a) = Fin \<bar>a\<bar>"
| "js_abs PosInf = PosInf"
| "js_abs NegInf = PosInf"
| "js_abs NaN = NaN"

fun js_lt :: "jsnum \<Rightarrow> jsnum \<Rightarrow> bool" where
  "js_lt NaN _ = False"
| "js_lt _ NaN = False"
| "js_lt (Fin a) (Fin b) = (a < b)"
| "js_lt (Fin a) PosInf = True"
| "js_lt (Fin a) NegInf = False"
| "js_lt PosInf _ = False"
| "js_lt NegInf NegInf = False"
| "js_lt NegInf _ = True"

text \<open>The comparison \<open>>=\<close>: false as soon as an operand is NaN.\<close>

fun js_ge :: "jsnum \<Rightarrow> jsnum \<Rightarrow> bool" where
  "js_ge NaN _ = False"
| "js_ge _ NaN = False"
| "js_ge (Fin a) (Fin b) = (a \<ge> b)"
| "js_ge PosInf _ = True"
| "js_ge (Fin a) NegInf = True"
| "js_ge NegInf NegInf = True"
| "js_ge (Fin a) PosInf = False"
| "js_ge NegInf _ = False"

fun js_min :: "jsnum \<Rightarrow> jsnum \<Rightarrow> jsnum" where
  "js_min NaN _ = NaN"
| "js_min _ NaN = NaN"
| "js_min a b = (if js_lt b a then b else a)"

text \<open>A value an operation can return: special, or finite within the range.\<close>

fun representable :: "jsnum \<Rightarrow> bool" where
  "representable (Fin a) = (\<bar>a\<bar> \<le> MAX_VALUE)"
| "representable _ = True"

fun is_finite :: "jsnum \<Rightarrow> bool" where
  "is_finite (Fin a) = True"
| "is_finite _ = False"


text \<open>The exceptions the programs can run into.\<close>

datatype js_error = TypeError | ReferenceError | RangeError

text \<open>
  The tables of the programs (\<open>boundaryList\<close>, \<open>algoList\<close>) are object literals.
  Reading \<open>table[name]\<close> finds the table's own entries and also the properties
  every object inherits from \<open>Object.prototype\<close>; only for any other name it is
  \<open>undefined\<close>. The inherited properties are functions, apart from \<open>__proto__\<close>,
  which is the prototype object. Called with no argument, \<open>__defineGetter__\<close> and
  \<open>__defineSetter__\<close> throw a TypeError; the other inherited functions return and
  change nothing of the program.
\<close>

definition inheritedCallable :: "string list" where
  "inheritedCallable =
     [''constructor'', ''hasOwnProperty'', ''isPrototypeOf'', ''propertyIsEnumerable'',
      ''toLocaleString'', ''toString'', ''valueOf'', ''__lookupGetter__'', ''__lookupSetter__'']"

definition inheritedNames :: "string list" where
  "inheritedNames = inheritedCallable @ [''__proto__'', ''__defineGetter__'', ''__defineSetter__'']"

datatype 'a property = Own 'a | Inherited | Absent


section \<open>The random number generator\<close>

text \<open>
  \<open>Math.random()\<close> is the only source of randomness. The generator is the stream of
  its future draws; a call returns the head and leaves the tail. The language
  guarantees that every draw lies in the half-open interval from 0 to 1.
\<close>

type_synonym rng = "nat \<Rightarrow> real"

definition random :: "rng \<Rightarrow> real \<times> rng" where
  "random r = (r 0, \<lambda>k. r (Suc k))"

text \<open>A stub generator that returns the same number on every call.\<close>

definition always :: "real \<Rightarrow> rng" where
  "always u = (\<lambda>k. u)"

definition rng_ok :: "rng \<Rightarrow> bool" where
  "rng_ok r = (\<forall>k. 0 \<le> r k \<and> r k < 1)"

definition coinFlip :: "rng \<Rightarrow> bool \<times> rng" where
  "coinFlip r = (let (u, r') = random r in (u < 1 / 2, r'))"

text \<open>\<open>Math.floor(Math.random() * n)\<close>\<close>

definition randomIndex :: "nat \<Rightarrow> rng \<Rightarrow> nat \<times> rng" where
  "randomIndex n r = (let (u, r') = random r in (nat \<lfloor>u * real n\<rfloor>, r'))"


section \<open>The lattice and the energy of a flip\<close>

text \<open>
  The lattice is an array of columns: \<open>lattice[x][y]\<close>. The side of the grid is a
  constant of each program (100, 102 or 20); it is the parameter \<open>gridSize\<close> here.
\<close>

type_synonym lattice = "int list list"

definition cell :: "'a list list \<Rightarrow> nat \<Rightarrow> nat \<Rightarrow> 'a" where
  "cell lat x y = lat ! x ! y"

definition setCell :: "'a list list \<Rightarrow> nat \<Rightarrow> nat \<Rightarrow> 'a \<Rightarrow> 'a list list" where
  "setCell lat x y v = lat[x := (lat ! x)[y := v]]"

text \<open>\<open>lattice[x][y] *= -1\<close>\<close>

definition flipCell :: "lattice \<Rightarrow> nat \<Rightarrow> nat \<Rightarrow> lattice" where
  "flipCell lat x y = setCell lat x y (cell lat x y * (- 1))"

text \<open>A square grid of the given side.\<close>

definition square_grid :: "nat \<Rightarrow> 'a list list \<Rightarrow> bool" where
  "square_grid gridSize lat =
     (length lat = gridSize \<and> list_all (\<lambda>col. length col = gridSize) lat)"

text \<open>Every cell of the grid is a spin, \<open>+1\<close> or \<open>-1\<close>.\<close>

definition all_spins :: "lattice \<Rightarrow> bool" where
  "all_spins lat = list_all (list_all (\<lambda>v. v = 1 \<or> v = - 1)) lat"

text \<open>
  \<open>calcDeltaE\<close> of programs 1, 2, 3 and 5: the neighbours wrap around the edge of
  the grid (a torus).
\<close>

definition calcDeltaE :: "nat \<Rightarrow> lattice \<Rightarrow> nat \<Rightarrow> nat \<Rightarrow> int" where
  "calcDeltaE gridSize lat x y =
     (let gridEdge = gridSize - 1;
          north = cell lat x (if y > 0 then y - 1 else gridEdge);
          south = cell lat x (if y < gridEdge then y + 1 else 0);
          east = cell lat (if x > 0 then x - 1 else gridEdge) y;
          west = cell lat (if x < gridEdge then x + 1 else 0) y
      in 2 * cell lat x y * (north + south + east + west))"

text \<open>
  \<open>calcDeltaE\<close> of program 4 (boundaries.js): the grid has a halo of border cells
  and the function is called on interior cells only; it reads one cell in each
  direction with no wrap-around.
\<close>

definition calcDeltaE_halo :: "lattice \<Rightarrow> nat \<Rightarrow> nat \<Rightarrow> int" where
  "calcDeltaE_halo lat x y =
     (let north = cell lat x (y - 1);
          south = cell lat x (y + 1);
          east = cell lat (x + 1) y;
          west = cell lat (x - 1) y
      in 2 * cell lat x y * (north + south + east + west))"

text \<open>The interior of a haloed grid, and what its cells may hold.\<close>

definition interior :: "nat \<Rightarrow> nat \<Rightarrow> nat \<Rightarrow> bool" where
  "interior gridSize x y = (1 \<le> x \<and> x + 1 < gridSize \<and> 1 \<le> y \<and> y + 1 < gridSize)"

definition halo_spins :: "nat \<Rightarrow> lattice \<Rightarrow> bool" where
  "halo_spins gridSize lat =
     list_all (\<lambda>x. list_all (\<lambda>y.
         if interior gridSize x y then cell lat x y = 1 \<or> cell lat x y = - 1
         else cell lat x y = 1 \<or> cell lat x y = - 1 \<or> cell lat x y = 0)
       [0..<gridSize]) [0..<gridSize]"


section \<open>The Boltzmann weight and the acceptance rules\<close>

text \<open>\<open>Math.min(Math.exp(-deltaE/temperature), Number.MAX_VALUE)\<close>\<close>

definition boltzmann :: "int \<Rightarrow> jsnum \<Rightarrow> jsnum" where
  "boltzmann deltaE temperature =
     js_min (js_exp (js_div (js_neg (Fin (of_int deltaE))) temperature)) (Fin MAX_VALUE)"

text \<open>
  The weight as the specification words it, a real number: the exponential of
  \<open>-deltaE / temperature\<close> as the floating-point unit delivers it (0 when it
  underflows), cut off at the largest finite number. \<open>gRatio\<close> is the quotient
  \<open>w / (1 + w)\<close> of the G-rule; the sum \<open>1 + w\<close> rounds to \<open>MAX_VALUE\<close> when \<open>w\<close> is
  \<open>MAX_VALUE\<close>.
\<close>

definition clampedWeight :: "int \<Rightarrow> real \<Rightarrow> real" where
  "clampedWeight deltaE t =
     (let e = exp (- real_of_int deltaE / t)
      in if e \<le> MIN_VALUE / 2 then 0
         else if e < MIN_VALUE then MIN_VALUE
         else min e MAX_VALUE)"

definition gRatio :: "int \<Rightarrow> real \<Rightarrow> real" where
  "gRatio deltaE t =
     (let w = clampedWeight deltaE t in w / min (1 + w) MAX_VALUE)"

text \<open>The three acceptor functions of program 5 (microscope.js).\<close>

definition MRuleFn :: "nat \<Rightarrow> lattice \<Rightarrow> jsnum \<Rightarrow> rng \<Rightarrow> nat \<Rightarrow> nat \<Rightarrow> bool \<times> rng" where
  "MRuleFn gridSize lat temperature r x y =
     (let deltaE = calcDeltaE gridSize lat x y;
          w = boltzmann deltaE temperature
      in if deltaE \<le> 0 then (True, r)
         else (let (u, r') = random r
               in if js_lt (Fin u) w then (True, r') else (False, r')))"

definition GRuleFn :: "nat \<Rightarrow> lattice \<Rightarrow> jsnum \<Rightarrow> rng \<Rightarrow> nat \<Rightarrow> nat \<Rightarrow> bool \<times> rng" where
  "GRuleFn gridSize lat temperature r x y =
     (let deltaE = calcDeltaE gridSize lat x y;
          w = boltzmann deltaE temperature;
          (u, r') = random r
      in if js_lt (Fin u) (js_div w (js_add (Fin 1) w)) then (True, r') else (False, r'))"

definition MstarRuleFn :: "nat \<Rightarrow> lattice \<Rightarrow> jsnum \<Rightarrow> rng \<Rightarrow> nat \<Rightarrow> nat \<Rightarrow> bool \<times> rng" where
  "MstarRuleFn gridSize lat temperature r x y =
     (let deltaE = calcDeltaE gridSize lat x y;
          w = boltzmann deltaE temperature
      in if deltaE < 0 then (True, r)
         else if deltaE = 0 then coinFlip r
         else (let (u, r') = random r
               in if js_lt (Fin u) w then (True, r') else (False, r')))"

text \<open>
  \<open>updateSpin\<close> of program 2: the three rules in one function, selected by the
  global string \<open>acceptanceFn\<close>; an accepted flip is written to the lattice at once.
  A selector that is none of the three names falls through every branch.
\<close>

definition updateSpin2 :: "nat \<Rightarrow> string \<Rightarrow> jsnum \<Rightarrow> lattice \<times> rng \<Rightarrow> nat \<Rightarrow> nat \<Rightarrow> lattice \<times> rng" where
  "updateSpin2 gridSize acceptanceFn temperature s x y =
     (let (lat, r) = s;
          deltaE = calcDeltaE gridSize lat x y;
          w = boltzmann deltaE temperature
      in if acceptanceFn = ''M_rule'' then
           (if deltaE \<le> 0 then (flipCell lat x y, r)
            else (let (u, r') = random r
                  in if js_lt (Fin u) w then (flipCell lat x y, r') else (lat, r')))
         else if acceptanceFn = ''G_rule'' then
           (let (u, r') = random r
            in if js_lt (Fin u) (js_div w (js_add (Fin 1) w)) then (flipCell lat x y, r')
               else (lat, r'))
         else if acceptanceFn = ''M_star_rule'' then
           (if deltaE < 0 then (flipCell lat x y, r)
            else if deltaE = 0 then
              (let (c, r') = coinFlip r in if c then (flipCell lat x y, r') else (lat, r'))
            else (let (u, r') = random r
                  in if js_lt (Fin u) w then (flipCell lat x y, r') else (lat, r')))
         else (lat, r))"


section \<open>Program 4: the haloed lattice and its border\<close>

text \<open>
  The constants of boundaries.js, for a grid of side \<open>gridSize\<close> (102 in the
  source): the halo is the outermost ring, the interior is everything else.
\<close>

definition gridTop :: nat where [simp]: "gridTop = 0"
definition gridLeft :: nat where [simp]: "gridLeft = 0"
definition activeTop :: nat where [simp]: "activeTop = gridTop + 1"
definition activeLeft :: nat where [simp]: "activeLeft = gridLeft + 1"

definition gridSide :: "nat \<Rightarrow> nat" where "gridSide gridSize = gridSize - 1"
definition gridBottom :: "nat \<Rightarrow> nat" where "gridBottom gridSize = gridSide gridSize"
definition gridRight :: "nat \<Rightarrow> nat" where "gridRight gridSize = gridSide gridSize"
definition activeSize :: "nat \<Rightarrow> nat" where "activeSize gridSize = gridSize - 2"
definition activeBottom :: "nat \<Rightarrow> nat" where "activeBottom gridSize = gridBottom gridSize - 1"
definition activeRight :: "nat \<Rightarrow> nat" where "activeRight gridSize = gridRight gridSize - 1"

text \<open>
  The generator \<open>genBorderXYs\<close>: the border cells clockwise from the top edge,
  the four corners left out.
\<close>

function genBorderXYs_from :: "nat \<Rightarrow> nat \<Rightarrow> nat \<Rightarrow> nat \<Rightarrow> (nat \<times> nat) list" where
  "genBorderXYs_from gridSize x y count =
     (if count < 4 * activeSize gridSize then
        (x, y) #
        (if Suc count < activeSize gridSize then
           genBorderXYs_from gridSize (x + 1) y (Suc count)
         else if Suc count < 2 * activeSize gridSize then
           genBorderXYs_from gridSize (gridRight gridSize) (y + 1) (Suc count)
         else if Suc count < 3 * activeSize gridSize then
           genBorderXYs_from gridSize (x - 1) (gridBottom gridSize) (Suc count)
         else
           genBorderXYs_from gridSize gridLeft (y - 1) (Suc count))
      else [])"
  by pat_completeness auto
termination
  by (relation "measure (\<lambda>(gridSize, x, y, count). 4 * activeSize gridSize - count)") auto

declare genBorderXYs_from.simps [simp del]

definition genBorderXYs :: "nat \<Rightarrow> (nat \<times> nat) list" where
  "genBorderXYs gridSize = genBorderXYs_from gridSize activeLeft gridTop 0"

definition makeZeroCorners :: "nat \<Rightarrow> lattice \<Rightarrow> lattice" where
  "makeZeroCorners gridSize lat =
     fold (\<lambda>x l. fold (\<lambda>y l'. setCell l' x y 0) [gridTop, gridBottom gridSize] l)
       [gridLeft, gridRight gridSize] lat"

definition makeZeroBorder :: "nat \<Rightarrow> lattice \<Rightarrow> lattice" where
  "makeZeroBorder gridSize lat = fold (\<lambda>(x, y) l. setCell l x y 0) (genBorderXYs gridSize) lat"

definition makeUpBorder :: "nat \<Rightarrow> lattice \<Rightarrow> lattice" where
  "makeUpBorder gridSize lat = fold (\<lambda>(x, y) l. setCell l x y 1) (genBorderXYs gridSize) lat"

definition makeDownBorder :: "nat \<Rightarrow> lattice \<Rightarrow> lattice" where
  "makeDownBorder gridSize lat =
     fold (\<lambda>(x, y) l. setCell l x y (- 1)) (genBorderXYs gridSize) lat"

text \<open>
  \<open>makeWraparoundBorder\<close>: four independent tests per border cell, each copying
  the interior cell at the far end of the same row or column.
\<close>

definition wraparoundCell :: "nat \<Rightarrow> nat \<times> nat \<Rightarrow> lattice \<Rightarrow> lattice" where
  "wraparoundCell gridSize xy lat =
     (let (x, y) = xy;
          l1 = (if y = gridTop then setCell lat x y (cell lat x (activeBottom gridSize)) else lat);
          l2 = (if x = gridRight gridSize then setCell l1 x y (cell l1 activeLeft y) else l1);
          l3 = (if y = gridBottom gridSize then setCell l2 x y (cell l2 x activeTop) else l2);
          l4 = (if x = gridLeft then setCell l3 x y (cell l3 (activeRight gridSize) y) else l3)
      in l4)"

definition makeWraparoundBorder :: "nat \<Rightarrow> lattice \<Rightarrow> lattice" where
  "makeWraparoundBorder gridSize lat = fold (wraparoundCell gridSize) (genBorderXYs gridSize) lat"

text \<open>
  \<open>makeTwistedBorder\<close>: as above, with the left and right edges matched upside
  down.
\<close>

definition twistedCell :: "nat \<Rightarrow> nat \<times> nat \<Rightarrow> lattice \<Rightarrow> lattice" where
  "twistedCell gridSize xy lat =
     (let (x, y) = xy;
          l1 = (if y = gridTop then setCell lat x y (cell lat x (activeBottom gridSize)) else lat);
          l2 = (if x = gridRight gridSize
                then setCell l1 x y (cell l1 activeLeft (gridBottom gridSize - y)) else l1);
          l3 = (if y = gridBottom gridSize then setCell l2 x y (cell l2 x activeTop) else l2);
          l4 = (if x = gridLeft
                then setCell l3 x y (cell l3 (activeRight gridSize) (gridBottom gridSize - y))
                else l3)
      in l4)"

definition makeTwistedBorder :: "nat \<Rightarrow> lattice \<Rightarrow> lattice" where
  "makeTwistedBorder gridSize lat = fold (twistedCell gridSize) (genBorderXYs gridSize) lat"

text \<open>The three borders that draw random numbers.\<close>

definition makeRandomBorder :: "nat \<Rightarrow> lattice \<times> rng \<Rightarrow> lattice \<times> rng" where
  "makeRandomBorder gridSize s =
     fold (\<lambda>(x, y) (l, r). let (c, r') = coinFlip r in (setCell l x y (if c then 1 else - 1), r'))
       (genBorderXYs gridSize) s"

definition randomSource :: "nat \<Rightarrow> rng \<Rightarrow> nat \<times> rng" where
  "randomSource gridSize r =
     (let (u, r') = random r in (1 + nat \<lfloor>u * real (activeSize gridSize)\<rfloor>, r'))"

definition makeSampledBorder :: "nat \<Rightarrow> lattice \<times> rng \<Rightarrow> lattice \<times> rng" where
  "makeSampledBorder gridSize s =
     fold (\<lambda>(x, y) (l, r).
             let (xSource, r1) = randomSource gridSize r;
                 (ySource, r2) = randomSource gridSize r1
             in (setCell l x y (cell l xSource ySource), r2))
       (genBorderXYs gridSize) s"

definition makeUnderdogBorder :: "nat \<Rightarrow> lattice \<times> rng \<Rightarrow> lattice \<times> rng" where
  "makeUnderdogBorder gridSize s =
     fold (\<lambda>(x, y) (l, r).
             let (xSource, r1) = randomSource gridSize r;
                 (ySource, r2) = randomSource gridSize r1
             in (setCell l x y (- cell l xSource ySource), r2))
       (genBorderXYs gridSize) s"

text \<open>
  The table \<open>boundaryList\<close> binds the eight labels to the functions above. The
  value is what the call \<open>boundaryList[label]()\<close> does to the lattice and the
  generator: an inherited function that returns leaves them as they are, and
  \<open>None\<close> is the call that ends in a TypeError (no property of that name, or one
  that is not a function or throws).
\<close>

definition boundaryList :: "string \<Rightarrow> (nat \<Rightarrow> lattice \<times> rng \<Rightarrow> lattice \<times> rng) option" where
  "boundaryList label =
     (if label = ''wraparound'' then Some (\<lambda>g (l, r). (makeWraparoundBorder g l, r))
      else if label = ''underdog'' then Some makeUnderdogBorder
      else if label = ''twisted'' then Some (\<lambda>g (l, r). (makeTwistedBorder g l, r))
      else if label = ''up'' then Some (\<lambda>g (l, r). (makeUpBorder g l, r))
      else if label = ''down'' then Some (\<lambda>g (l, r). (makeDownBorder g l, r))
      else if label = ''random'' then Some makeRandomBorder
      else if label = ''zero'' then Some (\<lambda>g (l, r). (makeZeroBorder g l, r))
      else if label = ''sampled'' then Some makeSampledBorder
      else if label \<in> set inheritedCallable then Some (\<lambda>g s. s)
      else None)"

text \<open>
  \<open>init\<close> of boundaries.js: a coin flip for every interior cell, row by row, then
  the border of the current rule, then the corners. The call of the table entry can
  end in a TypeError.
\<close>

definition interiorCoords :: "nat \<Rightarrow> (nat \<times> nat) list" where
  "interiorCoords gridSize =
     concat (map (\<lambda>y. map (\<lambda>x. (x, y)) [activeLeft..<activeRight gridSize + 1])
               [activeTop..<activeBottom gridSize + 1])"

definition init4 :: "nat \<Rightarrow> string \<Rightarrow> lattice \<times> rng \<Rightarrow> js_error + lattice \<times> rng" where
  "init4 gridSize boundaryRule s =
     (let s1 = fold (\<lambda>(x, y) (l, r).
                       let (c, r') = coinFlip r in (setCell l x y (if c then 1 else - 1), r'))
                 (interiorCoords gridSize) s
      in case boundaryList boundaryRule of
           None \<Rightarrow> Inl TypeError
         | Some makeBorder \<Rightarrow>
             (let (l2, r2) = makeBorder gridSize s1 in Inr (makeZeroCorners gridSize l2, r2)))"

text \<open>
  \<open>updateBorderMicrostep\<close>, called after every committed flip with the
  coordinates of the flipped cell. The tests form one else-if chain per rule.
\<close>

definition updateBorderMicrostep :: "nat \<Rightarrow> string \<Rightarrow> lattice \<Rightarrow> nat \<Rightarrow> nat \<Rightarrow> lattice" where
  "updateBorderMicrostep gridSize boundaryRule lat x y =
     (if boundaryRule = ''wraparound'' then
        (if x = activeLeft then setCell lat (gridRight gridSize) y (cell lat x y)
         else if x = activeRight gridSize then setCell lat gridLeft y (cell lat x y)
         else if y = activeTop then setCell lat x (gridBottom gridSize) (cell lat x y)
         else if y = activeBottom gridSize then setCell lat x gridTop (cell lat x y)
         else lat)
      else if boundaryRule = ''twisted'' then
        (if x = activeLeft then
           setCell lat (gridRight gridSize) (gridBottom gridSize - y) (cell lat x y)
         else if x = activeRight gridSize then
           setCell lat gridLeft (gridBottom gridSize - y) (cell lat x y)
         else if y = activeTop then setCell lat x (gridBottom gridSize) (cell lat x y)
         else if y = activeBottom gridSize then setCell lat x gridTop (cell lat x y)
         else lat)
      else lat)"

text \<open>
  One microstep of \<open>runMetro\<close> in boundaries.js (the body of its double loop): the
  M-rule, a committed flip, and the incremental border update.
\<close>

definition metroMicrostep :: "nat \<Rightarrow> string \<Rightarrow> jsnum \<Rightarrow> lattice \<times> rng \<Rightarrow> nat \<times> nat \<Rightarrow> lattice \<times> rng" where
  "metroMicrostep gridSize boundaryRule temperature s xy =
     (let (lat, r) = s; (x, y) = xy;
          deltaE = calcDeltaE_halo lat x y;
          w = boltzmann deltaE temperature
      in if deltaE \<le> 0 then
           (updateBorderMicrostep gridSize boundaryRule (flipCell lat x y) x y, r)
         else (let (u, r') = random r
               in if js_lt (Fin u) w then
                    (updateBorderMicrostep gridSize boundaryRule (flipCell lat x y) x y, r')
                  else (lat, r')))"

text \<open>
  The wraparound border is in step with the interior when every border cell equals
  the interior cell that \<open>makeWraparoundBorder\<close> copies into it.
\<close>

definition wraparound_synced :: "nat \<Rightarrow> lattice \<Rightarrow> bool" where
  "wraparound_synced gridSize lat =
     list_all (\<lambda>i.
         cell lat i gridTop = cell lat i (activeBottom gridSize) \<and>
         cell lat i (gridBottom gridSize) = cell lat i activeTop \<and>
         cell lat (gridRight gridSize) i = cell lat activeLeft i \<and>
         cell lat gridLeft i = cell lat (activeRight gridSize) i)
       [activeLeft..<activeRight gridSize + 1]"


section \<open>Program 1: sweeps, statistics and the measurement harness\<close>

text \<open>
  The global variables of metro\_v\_glauber.js that the simulation reads and
  writes, and the lines written to the console.
\<close>

record p1 =
  p1_lattice :: lattice
  p1_temperature :: jsnum
  p1_state :: string
  p1_rng :: rng
  p1_console :: "string list"

text \<open>The double loops of program 1 with \<open>x\<close> (or \<open>i\<close>) outside and \<open>y\<close> (or \<open>j\<close>) inside.\<close>

definition columnMajor :: "nat \<Rightarrow> (nat \<times> nat) list" where
  "columnMajor gridSize = concat (map (\<lambda>x. map (\<lambda>y. (x, y)) [0..<gridSize]) [0..<gridSize])"

text \<open>The double loops with \<open>y\<close> outside and \<open>x\<close> inside.\<close>

definition rowMajor :: "nat \<Rightarrow> (nat \<times> nat) list" where
  "rowMajor gridSize = concat (map (\<lambda>y. map (\<lambda>x. (x, y)) [0..<gridSize]) [0..<gridSize])"

text \<open>
  \<open>init(pattern)\<close>: the state variable is set first, the \<open>switch\<close> fills the lattice
  for the three known patterns, and its \<open>default\<close> branch writes a line to the
  console. The function then redraws and returns; it has no \<open>throw\<close>.
\<close>

definition init1 :: "nat \<Rightarrow> string \<Rightarrow> p1 \<Rightarrow> p1" where
  "init1 gridSize pattern s =
     (let s1 = s\<lparr>p1_state := ''scrambled''\<rparr>
      in if pattern = ''scrambled'' then
           (let (l, r) = fold (\<lambda>(i, j) (l, r).
                                 let (c, r') = coinFlip r
                                 in (setCell l i j (if c then 1 else - 1), r'))
                           (columnMajor gridSize) (p1_lattice s1, p1_rng s1)
            in s1\<lparr>p1_lattice := l, p1_rng := r\<rparr>)
         else if pattern = ''plus'' then
           s1\<lparr>p1_lattice := fold (\<lambda>(i, j) l. setCell l i j 1) (columnMajor gridSize) (p1_lattice s1)\<rparr>
         else if pattern = ''minus'' then
           s1\<lparr>p1_lattice :=
                fold (\<lambda>(i, j) l. setCell l i j (- 1)) (columnMajor gridSize) (p1_lattice s1)\<rparr>
         else s1\<lparr>p1_console := p1_console s1 @ [''Unknown initState '' @ pattern]\<rparr>)"

text \<open>\<open>runMetro\<close>: one typewriter sweep under the M-rule, each flip committed at once.\<close>

definition metroStep1 :: "nat \<Rightarrow> jsnum \<Rightarrow> lattice \<times> rng \<Rightarrow> nat \<times> nat \<Rightarrow> lattice \<times> rng" where
  "metroStep1 gridSize temperature s xy =
     (let (lat, r) = s; (x, y) = xy;
          deltaE = calcDeltaE gridSize lat x y;
          w = boltzmann deltaE temperature
      in if deltaE \<le> 0 then (flipCell lat x y, r)
         else (let (u, r') = random r
               in if js_lt (Fin u) w then (flipCell lat x y, r') else (lat, r')))"

definition runMetro1 :: "nat \<Rightarrow> p1 \<Rightarrow> p1" where
  "runMetro1 gridSize s =
     (let (l, r) = fold (\<lambda>xy s'. metroStep1 gridSize (p1_temperature s) s' xy)
                     (rowMajor gridSize) (p1_lattice s, p1_rng s)
      in s\<lparr>p1_lattice := l, p1_rng := r\<rparr>)"

text \<open>\<open>runGlauber\<close>: N random sites, the G-rule.\<close>

definition glauberStep1 :: "nat \<Rightarrow> jsnum \<Rightarrow> lattice \<times> rng \<Rightarrow> lattice \<times> rng" where
  "glauberStep1 gridSize temperature s =
     (let (lat, r) = s;
          (x, r1) = randomIndex gridSize r;
          (y, r2) = randomIndex gridSize r1;
          deltaE = calcDeltaE gridSize lat x y;
          w = boltzmann deltaE temperature;
          (u, r3) = random r2
      in if js_lt (Fin u) (js_div w (js_add (Fin 1) w)) then (flipCell lat x y, r3)
         else (lat, r3))"

definition runGlauber1 :: "nat \<Rightarrow> p1 \<Rightarrow> p1" where
  "runGlauber1 gridSize s =
     (let (l, r) = fold (\<lambda>i s'. glauberStep1 gridSize (p1_temperature s) s')
                     [0..<gridSize * gridSize] (p1_lattice s, p1_rng s)
      in s\<lparr>p1_lattice := l, p1_rng := r\<rparr>)"

text \<open>
  The statistics. The sums run over integers and multiples of one eighth, far
  inside the range of the exact numbers; the division by \<open>N\<close> is a JavaScript
  division.
\<close>

definition magnetization :: "nat \<Rightarrow> lattice \<Rightarrow> jsnum" where
  "magnetization gridSize lat =
     js_div (Fin (of_int (sum_list (map (\<lambda>(x, y). cell lat x y) (columnMajor gridSize)))))
       (Fin (real (gridSize * gridSize)))"

definition local_correlations :: "nat \<Rightarrow> lattice \<Rightarrow> jsnum" where
  "local_correlations gridSize lat =
     js_div (Fin (sum_list (map (\<lambda>(x, y). of_int (calcDeltaE gridSize lat x y) / 8)
                              (columnMajor gridSize))))
       (Fin (real (gridSize * gridSize)))"

definition calc_lattice_energy :: "nat \<Rightarrow> lattice \<Rightarrow> int" where
  "calc_lattice_energy gridSize lat =
     sum_list (map (\<lambda>(x, y).
         (let gridEdge = gridSize - 1;
              here = cell lat x y;
              east = cell lat (if x > 0 then x - 1 else gridEdge) y;
              south = cell lat x (if y < gridEdge then y + 1 else 0)
          in (if here = east then - 1 else 1) + (if here = south then - 1 else 1)))
       (rowMajor gridSize))"

text \<open>
  The recording loop shared by the harness routines of program 1: one sweep, then
  the three statistics added to slot \<open>j\<close> of their arrays. The magnetization goes
  through \<open>Math.abs\<close>.
\<close>

definition recordSweep1 ::
  "nat \<Rightarrow> (p1 \<Rightarrow> p1) \<Rightarrow> nat \<Rightarrow> p1 \<times> jsnum list \<times> jsnum list \<times> jsnum list
     \<Rightarrow> p1 \<times> jsnum list \<times> jsnum list \<times> jsnum list" where
  "recordSweep1 gridSize fn j acc =
     (let (s, Es, Rs, Ms) = acc;
          s' = fn s
      in (s',
          Es[j := js_add (Es ! j) (Fin (of_int (calc_lattice_energy gridSize (p1_lattice s'))))],
          Rs[j := js_add (Rs ! j) (local_correlations gridSize (p1_lattice s'))],
          Ms[j := js_add (Ms ! j) (js_abs (magnetization gridSize (p1_lattice s')))]))"

text \<open>
  \<open>Array.prototype.reduce\<close> without an initial value: a TypeError on the empty
  array.
\<close>

definition reduce_add :: "jsnum list \<Rightarrow> js_error + jsnum" where
  "reduce_add xs = (case xs of [] \<Rightarrow> Inl TypeError | x # rest \<Rightarrow> Inr (foldl js_add x rest))"

definition square :: "jsnum \<Rightarrow> jsnum" where
  "square x = js_mul x x"

text \<open>
  The statistics of a series (the lines under "now do the stats"): the mean with
  divisor \<open>steps\<close>, the squared deviations, their sum divided by \<open>steps - 1\<close>, the
  square root.
\<close>

definition seriesStats :: "jsnum list \<Rightarrow> nat \<Rightarrow> js_error + jsnum \<times> jsnum" where
  "seriesStats results steps =
     (let mean = js_div (foldl js_add (Fin 0) results) (Fin (real steps));
          deviates = map (\<lambda>x. square (js_sub x mean)) results
      in case reduce_add deviates of
           Inl e \<Rightarrow> Inl e
         | Inr sumsq \<Rightarrow> Inr (mean, js_sqrt (js_div sumsq (Fin (real steps - 1)))))"

text \<open>
  The sample mean and the sample standard deviation of a series of real numbers,
  as the specification words them: divisor \<open>n\<close> for the mean, divisor \<open>n - 1\<close> under
  the square root.
\<close>

definition sample_mean :: "real list \<Rightarrow> real" where
  "sample_mean xs = sum_list xs / real (length xs)"

definition sample_sdev :: "real list \<Rightarrow> real" where
  "sample_sdev xs =
     sqrt (sum_list (map (\<lambda>x. (x - sample_mean xs)\<^sup>2) xs) / (real (length xs) - 1))"

record eq_result =
  R_mean :: jsnum
  R_sdev :: jsnum
  M_mean :: jsnum
  M_sdev :: jsnum

text \<open>
  \<open>equilibriumProperties\<close>. The per-sweep means \<open>E_results\<close>, \<open>R_results\<close> and
  \<open>M_results\<close> are kept in the result next to the four numbers the function
  returns. Writing the list of energies reads \<open>E_results[E_results.length - 1]\<close> and
  calls \<open>toString\<close> on it: a TypeError when the list is empty.
\<close>

definition equilibriumProperties ::
  "nat \<Rightarrow> string \<Rightarrow> string \<Rightarrow> jsnum \<Rightarrow> nat \<Rightarrow> nat \<Rightarrow> nat \<Rightarrow> p1
     \<Rightarrow> js_error + (eq_result \<times> jsnum list \<times> jsnum list \<times> jsnum list \<times> p1)" where
  "equilibriumProperties gridSize algo initState T burnin steps reps s =
     (let fn = (if algo = ''metro'' then runMetro1 gridSize else runGlauber1 gridSize);
          zeros = replicate steps (Fin 0);
          s0 = s\<lparr>p1_temperature := T\<rparr>;
          (s1, Es, Rs, Ms) =
            fold (\<lambda>i (s', acc).
                    fold (recordSweep1 gridSize fn) [0..<steps]
                      ((fn ^^ burnin) (init1 gridSize initState s'), acc))
              [0..<reps] (s0, zeros, zeros, zeros);
          E_results = map (\<lambda>x. js_div x (Fin (real reps))) Es;
          R_results = map (\<lambda>x. js_div x (Fin (real reps))) Rs;
          M_results = map (\<lambda>x. js_div x (Fin (real reps))) Ms
      in if E_results = [] then Inl TypeError
         else case seriesStats R_results steps of
                Inl e \<Rightarrow> Inl e
              | Inr (Rm, Rs') \<Rightarrow>
                  (case seriesStats M_results steps of
                     Inl e \<Rightarrow> Inl e
                   | Inr (Mm, Ms') \<Rightarrow>
                       Inr (\<lparr>R_mean = Rm, R_sdev = Rs', M_mean = Mm, M_sdev = Ms'\<rparr>,
                            E_results, R_results, M_results, s1)))"


section \<open>Program 3: the simultaneous sweep\<close>

text \<open>
  \<open>runMetro_simultaneous\<close>: the first double loop (\<open>x\<close> outside, \<open>y\<close> inside) copies
  each cell to the shadow lattice, decides by the M-rule on the lattice, and flips
  the shadow cell; the second double loop copies the shadow lattice back.
\<close>

definition simultaneousStep ::
  "nat \<Rightarrow> jsnum \<Rightarrow> lattice \<times> lattice \<times> rng \<Rightarrow> nat \<times> nat \<Rightarrow> lattice \<times> lattice \<times> rng" where
  "simultaneousStep gridSize temperature s xy =
     (let (lat, shadowLattice, r) = s; (x, y) = xy;
          shadow1 = setCell shadowLattice x y (cell lat x y);
          deltaE = calcDeltaE gridSize lat x y;
          w = boltzmann deltaE temperature
      in if deltaE \<le> 0 then (lat, flipCell shadow1 x y, r)
         else (let (u, r') = random r
               in if js_lt (Fin u) w then (lat, flipCell shadow1 x y, r')
                  else (lat, shadow1, r')))"

definition copyBack :: "lattice \<Rightarrow> lattice \<Rightarrow> (nat \<times> nat) list \<Rightarrow> lattice" where
  "copyBack lat shadowLattice cs = fold (\<lambda>(x, y) l. setCell l x y (cell shadowLattice x y)) cs lat"

definition runMetro_simultaneous ::
  "nat \<Rightarrow> jsnum \<Rightarrow> lattice \<times> lattice \<times> rng \<Rightarrow> lattice \<times> lattice \<times> rng" where
  "runMetro_simultaneous gridSize temperature s =
     (let (lat1, shadow1, r1) =
            fold (\<lambda>xy s'. simultaneousStep gridSize temperature s' xy) (columnMajor gridSize) s
      in (copyBack lat1 shadow1 (columnMajor gridSize), shadow1, r1))"


section \<open>Program 5: microsteps, sweeps and the deferred commit\<close>

text \<open>
  The generators \<open>typewriterGen\<close> and \<open>simultaneousGen\<close> (identical): row by row,
  left to right. Their arguments default to 0.
\<close>

definition typewriterGen :: "nat \<Rightarrow> nat \<Rightarrow> nat \<Rightarrow> (nat \<times> nat) list" where
  "typewriterGen gridSize xInit yInit =
     concat (map (\<lambda>y. map (\<lambda>x. (x, y)) [xInit..<gridSize]) [yInit..<gridSize])"

definition simultaneousGen :: "nat \<Rightarrow> nat \<Rightarrow> nat \<Rightarrow> (nat \<times> nat) list" where
  "simultaneousGen gridSize xInit yInit =
     concat (map (\<lambda>y. map (\<lambda>x. (x, y)) [xInit..<gridSize]) [yInit..<gridSize])"

text \<open>
  \<open>checkerboardGen\<close>: in every row the columns of the row's parity, then in every
  row the other columns. The inner loop \<open>for (x = s; x < gridSize; x += 2)\<close> is
  \<open>stepBy2\<close>.
\<close>

function stepBy2 :: "nat \<Rightarrow> nat \<Rightarrow> nat list" where
  "stepBy2 x gridSize = (if x < gridSize then x # stepBy2 (x + 2) gridSize else [])"
  by pat_completeness auto
termination
  by (relation "measure (\<lambda>(x, gridSize). gridSize - x)") auto

declare stepBy2.simps [simp del]

definition checkerboardGen :: "nat \<Rightarrow> (nat \<times> nat) list" where
  "checkerboardGen gridSize =
     concat (map (\<lambda>y. map (\<lambda>x. (x, y)) (stepBy2 (y mod 2) gridSize)) [0..<gridSize])
     @ concat (map (\<lambda>y. map (\<lambda>x. (x, y)) (stepBy2 ((y + 1) mod 2) gridSize)) [0..<gridSize])"

text \<open>
  \<open>diagonalGen\<close> (and \<open>diagonalCoords\<close> of program 3, the same code): the state of
  the generator is \<open>x\<close>, \<open>y\<close> and \<open>count\<close>; \<open>diagonalNext\<close> is the move between two
  yields.
\<close>

definition diagonalNext :: "nat \<Rightarrow> nat \<times> nat \<Rightarrow> nat \<times> nat" where
  "diagonalNext gridSize p =
     (let (x, y) = p; gridEdge = gridSize - 1
      in if x = gridEdge then (y + 1, gridEdge)
         else if y = 0 then (0, x + 1)
         else (x + 1, y - 1))"

function diagonalFrom :: "nat \<Rightarrow> nat \<times> nat \<Rightarrow> nat \<Rightarrow> (nat \<times> nat) list" where
  "diagonalFrom gridSize p count =
     (if count < gridSize * gridSize
      then p # diagonalFrom gridSize (diagonalNext gridSize p) (Suc count)
      else [])"
  by pat_completeness auto
termination
  by (relation "measure (\<lambda>(gridSize, p, count). gridSize * gridSize - count)") auto

declare diagonalFrom.simps [simp del]

definition diagonalGen :: "nat \<Rightarrow> (nat \<times> nat) list" where
  "diagonalGen gridSize = diagonalFrom gridSize (0, 0) 0"

text \<open>
  \<open>boustrophedonCoords\<close> of program 3: the generator runs while \<open>y < gridSize\<close>;
  even rows are walked to the right, odd rows to the left.
\<close>

definition boustrophedonNext :: "nat \<Rightarrow> nat \<times> nat \<Rightarrow> nat \<times> nat" where
  "boustrophedonNext gridSize p =
     (let (x, y) = p; gridEdge = gridSize - 1
      in if y mod 2 = 0 then (if x < gridEdge then (x + 1, y) else (x, y + 1))
         else (if x > 0 then (x - 1, y) else (x, y + 1)))"

function boustrophedonFrom :: "nat \<Rightarrow> nat \<times> nat \<Rightarrow> (nat \<times> nat) list" where
  "boustrophedonFrom gridSize p =
     (if snd p < gridSize then p # boustrophedonFrom gridSize (boustrophedonNext gridSize p)
      else [])"
  by pat_completeness auto
termination
  by (relation "measures [\<lambda>(gridSize, p). gridSize - snd p,
                          \<lambda>(gridSize, p). if snd p mod 2 = 0 then gridSize - 1 - fst p else fst p]")
     (auto simp: boustrophedonNext_def Let_def split: prod.splits if_splits)

declare boustrophedonFrom.simps [simp del]

definition boustrophedonCoords :: "nat \<Rightarrow> (nat \<times> nat) list" where
  "boustrophedonCoords gridSize = boustrophedonFrom gridSize (0, 0)"

text \<open>
  \<open>randomPermutation(n)\<close>: the identity array, then for \<open>i\<close> from \<open>n - 1\<close> down to 2
  a swap of \<open>p[i]\<close> with \<open>p[j]\<close>, \<open>j\<close> drawn from the whole range.
\<close>

fun swapDown :: "nat \<Rightarrow> nat \<Rightarrow> nat list \<times> rng \<Rightarrow> nat list \<times> rng" where
  "swapDown n 0 s = s"
| "swapDown n (Suc i) (p, r) =
     (if Suc i > 1 then
        (let (j, r') = randomIndex n r;
             temp = p ! j;
             p1 = p[j := p ! Suc i];
             p2 = p1[Suc i := temp]
         in swapDown n i (p2, r'))
      else (p, r))"

definition randomPermutation :: "nat \<Rightarrow> rng \<Rightarrow> nat list \<times> rng" where
  "randomPermutation n r = swapDown n (n - 1) ([0..<n], r)"

text \<open>
  \<open>permutedGen\<close> walks the global \<open>thePermutation\<close>; \<open>re_permutedGen\<close> makes a fresh
  permutation first; \<open>randomGen\<close> draws both coordinates of each of the N sites.
\<close>

definition permutedGen :: "nat \<Rightarrow> nat list \<Rightarrow> (nat \<times> nat) list" where
  "permutedGen gridSize thePermutation =
     map (\<lambda>r. (r div gridSize, r mod gridSize)) thePermutation"

definition re_permutedGen :: "nat \<Rightarrow> rng \<Rightarrow> (nat \<times> nat) list \<times> rng" where
  "re_permutedGen gridSize r =
     (let (p, r') = randomPermutation (gridSize * gridSize) r
      in (map (\<lambda>r. (r div gridSize, r mod gridSize)) p, r'))"

fun randomCoords :: "nat \<Rightarrow> nat \<Rightarrow> rng \<Rightarrow> (nat \<times> nat) list \<times> rng" where
  "randomCoords gridSize 0 r = ([], r)"
| "randomCoords gridSize (Suc n) r =
     (let (x, r1) = randomIndex gridSize r;
          (y, r2) = randomIndex gridSize r1;
          (rest, r3) = randomCoords gridSize n r2
      in ((x, y) # rest, r3))"

definition randomGen :: "nat \<Rightarrow> rng \<Rightarrow> (nat \<times> nat) list \<times> rng" where
  "randomGen gridSize r = randomCoords gridSize (gridSize * gridSize) r"

text \<open>The sites of the grid.\<close>

definition sites :: "nat \<Rightarrow> (nat \<times> nat) set" where
  "sites gridSize = {0..<gridSize} \<times> {0..<gridSize}"

text \<open>
  The state a microstep works on: the lattice, the array of flips to be made at
  the end of a simultaneous sweep, the array of visited sites, the generator.
\<close>

record micro_state =
  lattice :: lattice
  toBeFlippedArray :: "bool list list"
  visitedArray :: "bool list list"
  gen :: rng

type_synonym acceptor = "nat \<Rightarrow> lattice \<Rightarrow> jsnum \<Rightarrow> rng \<Rightarrow> nat \<Rightarrow> nat \<Rightarrow> bool \<times> rng"

text \<open>\<open>updateSpin\<close> of microscope.js (the drawing left out).\<close>

definition updateSpin5 ::
  "nat \<Rightarrow> string \<Rightarrow> acceptor \<Rightarrow> jsnum \<Rightarrow> micro_state \<Rightarrow> nat \<times> nat \<Rightarrow> micro_state" where
  "updateSpin5 gridSize visitSeq acc temperature s xy =
     (let (x, y) = xy;
          s1 = s\<lparr>visitedArray := setCell (visitedArray s) x y True\<rparr>;
          (flipSpin, r') = acc gridSize (lattice s1) temperature (gen s1) x y;
          s2 = s1\<lparr>gen := r'\<rparr>
      in if flipSpin then
           (if visitSeq = ''simultaneous''
            then s2\<lparr>toBeFlippedArray := setCell (toBeFlippedArray s2) x y True\<rparr>
            else s2\<lparr>lattice := flipCell (lattice s2) x y\<rparr>)
         else s2)"

text \<open>\<open>clearLattice\<close> and \<open>simultaneousUpdate\<close>: both sweep row by row.\<close>

definition clearLattice :: "nat \<Rightarrow> 'a list list \<Rightarrow> 'a \<Rightarrow> 'a list list" where
  "clearLattice gridSize arr fillValue =
     fold (\<lambda>(x, y) a. setCell a x y fillValue) (typewriterGen gridSize 0 0) arr"

definition simultaneousUpdate :: "nat \<Rightarrow> micro_state \<Rightarrow> micro_state" where
  "simultaneousUpdate gridSize s =
     (let lat' = fold (\<lambda>(x, y) l. if cell (toBeFlippedArray s) x y then flipCell l x y else l)
                   (typewriterGen gridSize 0 0) (lattice s)
      in s\<lparr>lattice := lat',
            toBeFlippedArray := clearLattice gridSize (toBeFlippedArray s) False\<rparr>)"


text \<open>
  The drivers step by step. \<open>XYiterator\<close> is the list of the coordinates the
  iterator has yet to yield, and \<open>nextXYgen\<close> the list a fresh iterator yields
  (for the generators that draw no random number, \<open>simultaneousGen\<close> among them).
  \<open>macrostep\<close> is called by a timer; at the end of a sweep it clears the visited
  marks and, in simultaneous mode, calls \<open>simultaneousUpdate\<close>. \<open>doMicroButton\<close>
  at the end of a sweep clears the visited marks and the array of staged flips,
  restarts the iterator and visits its first site; destructuring the value of an
  iterator that is done at once is a TypeError.
\<close>

record p5 =
  p5_micro :: micro_state
  p5_XYiterator :: "(nat \<times> nat) list"
  p5_state :: string
  p5_runLabel :: string

definition macrostep ::
  "nat \<Rightarrow> string \<Rightarrow> (nat \<times> nat) list \<Rightarrow> acceptor \<Rightarrow> jsnum \<Rightarrow> p5 \<Rightarrow> p5" where
  "macrostep gridSize visitSeq nextXYgen acc temperature s =
     (case p5_XYiterator s of
        [] \<Rightarrow>
          (let m = p5_micro s;
               m1 = m\<lparr>visitedArray := clearLattice gridSize (visitedArray m) False\<rparr>
           in s\<lparr>p5_state := ''idle'', p5_XYiterator := nextXYgen,
                 p5_micro := (if visitSeq = ''simultaneous'' then simultaneousUpdate gridSize m1
                              else m1)\<rparr>)
      | xy # rest \<Rightarrow>
          s\<lparr>p5_XYiterator := rest,
              p5_micro := updateSpin5 gridSize visitSeq acc temperature (p5_micro s) xy\<rparr>)"

definition doMicroButton ::
  "nat \<Rightarrow> string \<Rightarrow> (nat \<times> nat) list \<Rightarrow> acceptor \<Rightarrow> jsnum \<Rightarrow> p5 \<Rightarrow> js_error + p5" where
  "doMicroButton gridSize visitSeq nextXYgen acc temperature s =
     (if p5_state s = ''busy'' then Inr (s\<lparr>p5_runLabel := ''Run'', p5_state := ''idle''\<rparr>)
      else case p5_XYiterator s of
             xy # rest \<Rightarrow>
               Inr (s\<lparr>p5_XYiterator := rest,
                        p5_micro := updateSpin5 gridSize visitSeq acc temperature (p5_micro s) xy\<rparr>)
           | [] \<Rightarrow>
               (let m = p5_micro s;
                    m1 = m\<lparr>visitedArray := clearLattice gridSize (visitedArray m) False,
                           toBeFlippedArray := clearLattice gridSize (toBeFlippedArray m) False\<rparr>
                in case nextXYgen of
                     [] \<Rightarrow> Inl TypeError
                   | xy # rest \<Rightarrow>
                       Inr (s\<lparr>p5_XYiterator := rest,
                                p5_micro := updateSpin5 gridSize visitSeq acc temperature m1 xy\<rparr>)))"

text \<open>The Microstep button pressed \<open>k\<close> times in a row.\<close>

fun pressMicro ::
  "nat \<Rightarrow> nat \<Rightarrow> string \<Rightarrow> (nat \<times> nat) list \<Rightarrow> acceptor \<Rightarrow> jsnum \<Rightarrow> p5 \<Rightarrow> js_error + p5" where
  "pressMicro 0 gridSize visitSeq nextXYgen acc temperature s = Inr s"
| "pressMicro (Suc k) gridSize visitSeq nextXYgen acc temperature s =
     (case doMicroButton gridSize visitSeq nextXYgen acc temperature s of
        Inl e \<Rightarrow> Inl e
      | Inr s' \<Rightarrow> pressMicro k gridSize visitSeq nextXYgen acc temperature s')"





section \<open>Program 2: the batch and the step response\<close>

text \<open>
  The global variables of program 2. \<open>itinerary\<close> is not declared by the script: the
  assignment in \<open>stepResponse\<close> creates it.
\<close>

record p2 =
  p2_lattice :: lattice
  p2_temperature :: jsnum
  p2_rng :: rng
  p2_visitationFn :: string
  p2_acceptanceFn :: string
  p2_itinerary :: "string option"
  p2_state :: string
  p2_console :: "string list"

text \<open>\<open>init\<close> of program 2 has the text of \<open>init\<close> of program 1.\<close>

definition init2 :: "nat \<Rightarrow> string \<Rightarrow> p2 \<Rightarrow> p2" where
  "init2 gridSize pattern s =
     (let s1 = s\<lparr>p2_state := ''scrambled''\<rparr>
      in if pattern = ''scrambled'' then
           (let (l, r) = fold (\<lambda>(i, j) (l, r).
                                 let (c, r') = coinFlip r
                                 in (setCell l i j (if c then 1 else - 1), r'))
                           (columnMajor gridSize) (p2_lattice s1, p2_rng s1)
            in s1\<lparr>p2_lattice := l, p2_rng := r\<rparr>)
         else if pattern = ''plus'' then
           s1\<lparr>p2_lattice := fold (\<lambda>(i, j) l. setCell l i j 1) (columnMajor gridSize) (p2_lattice s1)\<rparr>
         else if pattern = ''minus'' then
           s1\<lparr>p2_lattice :=
                fold (\<lambda>(i, j) l. setCell l i j (- 1)) (columnMajor gridSize) (p2_lattice s1)\<rparr>
         else s1\<lparr>p2_console := p2_console s1 @ [''Unknown initState '' @ pattern]\<rparr>)"

text \<open>
  \<open>runBatch\<close>: one macrostep, in typewriter order or at random sites, by the global
  \<open>visitationFn\<close>; any other value of the selector visits nothing.
\<close>

definition runBatch :: "nat \<Rightarrow> p2 \<Rightarrow> p2" where
  "runBatch gridSize s =
     (let (l, r) =
            (if p2_visitationFn s = ''deterministic'' then
               fold (\<lambda>(x, y) s'. updateSpin2 gridSize (p2_acceptanceFn s) (p2_temperature s) s' x y)
                 (rowMajor gridSize) (p2_lattice s, p2_rng s)
             else if p2_visitationFn s = ''random'' then
               fold (\<lambda>i (l, r).
                       let (x, r1) = randomIndex gridSize r;
                           (y, r2) = randomIndex gridSize r1
                       in updateSpin2 gridSize (p2_acceptanceFn s) (p2_temperature s) (l, r2) x y)
                 [0..<gridSize * gridSize] (p2_lattice s, p2_rng s)
             else (p2_lattice s, p2_rng s))
      in s\<lparr>p2_lattice := l, p2_rng := r\<rparr>)"

text \<open>
  \<open>stepResponse\<close> of program 2 records the magnetization alone. It stores its
  first argument in \<open>itinerary\<close>, which \<open>runBatch\<close> does not read. The series is
  returned as numbers: the means \<open>x / reps\<close> before \<open>toFixed\<close> turns them into text.
\<close>

definition recordData ::
  "('s \<Rightarrow> 's) \<Rightarrow> ('s \<Rightarrow> jsnum) \<Rightarrow> nat \<Rightarrow> nat \<Rightarrow> 's \<times> jsnum list \<Rightarrow> 's \<times> jsnum list" where
  "recordData fn mag offset j acc =
     (let (s, data) = acc;
          s' = fn s
      in (s', data[offset + j := js_add (data ! (offset + j)) (js_abs (mag s'))]))"

definition stepResponse2 ::
  "nat \<Rightarrow> string \<Rightarrow> string \<Rightarrow> jsnum \<Rightarrow> jsnum \<Rightarrow> nat \<Rightarrow> nat \<Rightarrow> nat \<Rightarrow> nat \<Rightarrow> p2
     \<Rightarrow> jsnum list \<times> p2" where
  "stepResponse2 gridSize visitFn acceptFn T1 T2 T1_steps T2_steps burnin reps s =
     (let s0 = init2 gridSize ''scrambled''
                 (s\<lparr>p2_itinerary := Some visitFn, p2_acceptanceFn := acceptFn\<rparr>);
          mag = (\<lambda>s'. magnetization gridSize (p2_lattice s'));
          (s3, data) =
            fold (\<lambda>i (s', data).
                    let s1 = (runBatch gridSize ^^ burnin) (s'\<lparr>p2_temperature := T1\<rparr>);
                        (s2, data2) = fold (recordData (runBatch gridSize) mag 0) [0..<T1_steps]
                                        (s1, data)
                    in fold (recordData (runBatch gridSize) mag T1_steps) [0..<T2_steps]
                         (s2\<lparr>p2_temperature := T2\<rparr>, data2))
              [0..<reps] (s0, replicate (T1_steps + T2_steps) (Fin 0))
      in (map (\<lambda>x. js_div x (Fin (real reps))) data, s3))"


section \<open>Program 3: the eight sweeps, the run button and the step response\<close>

text \<open>The global variables of program 3; the run button shows \<open>p3_label\<close>.\<close>

record p3 =
  p3_lattice :: lattice
  p3_shadow :: lattice
  p3_temperature :: jsnum
  p3_rng :: rng
  p3_permutation :: "nat list"
  p3_state :: string
  p3_algorithm :: string
  p3_label :: string

text \<open>
  A sweep that calls \<open>updateSpin\<close> (the M-rule with an immediate commit, the same
  code as in program 1) on each coordinate of a list.
\<close>

definition sweepOver :: "nat \<Rightarrow> (nat \<times> nat) list \<Rightarrow> p3 \<Rightarrow> p3" where
  "sweepOver gridSize cs s =
     (let (l, r) = fold (\<lambda>xy s'. metroStep1 gridSize (p3_temperature s) s' xy) cs
                     (p3_lattice s, p3_rng s)
      in s\<lparr>p3_lattice := l, p3_rng := r\<rparr>)"

text \<open>\<open>runMetro_checkerboard\<close> of program 3 walks columns, not rows.\<close>

definition checkerboardCoords3 :: "nat \<Rightarrow> (nat \<times> nat) list" where
  "checkerboardCoords3 gridSize =
     concat (map (\<lambda>x. map (\<lambda>y. (x, y)) (stepBy2 (x mod 2) gridSize)) [0..<gridSize])
     @ concat (map (\<lambda>x. map (\<lambda>y. (x, y)) (stepBy2 ((x + 1) mod 2) gridSize)) [0..<gridSize])"

text \<open>The functions the table \<open>algoList\<close> holds.\<close>

datatype sweep_fn =
  RunMetro_typewriter | RunMetro_checkerboard | RunMetro_diagonal | RunMetro_boustrophedon
  | RunMetro_permuted | RunMetro_re_permuted | RunMetro_random | RunMetro_simultaneous

definition runSweep3 :: "nat \<Rightarrow> sweep_fn \<Rightarrow> p3 \<Rightarrow> p3" where
  "runSweep3 gridSize fn s =
     (case fn of
        RunMetro_typewriter \<Rightarrow> sweepOver gridSize (rowMajor gridSize) s
      | RunMetro_checkerboard \<Rightarrow> sweepOver gridSize (checkerboardCoords3 gridSize) s
      | RunMetro_diagonal \<Rightarrow> sweepOver gridSize (diagonalGen gridSize) s
      | RunMetro_boustrophedon \<Rightarrow> sweepOver gridSize (boustrophedonCoords gridSize) s
      | RunMetro_permuted \<Rightarrow> sweepOver gridSize (permutedGen gridSize (p3_permutation s)) s
      | RunMetro_re_permuted \<Rightarrow>
          (let (cs, r) = re_permutedGen gridSize (p3_rng s)
           in sweepOver gridSize cs (s\<lparr>p3_rng := r\<rparr>))
      | RunMetro_random \<Rightarrow>
          (let (l, r) = fold (\<lambda>i (l, r).
                                let (x, r1) = randomIndex gridSize r;
                                    (y, r2) = randomIndex gridSize r1
                                in metroStep1 gridSize (p3_temperature s) (l, r2) (x, y))
                          [0..<gridSize * gridSize] (p3_lattice s, p3_rng s)
           in s\<lparr>p3_lattice := l, p3_rng := r\<rparr>)
      | RunMetro_simultaneous \<Rightarrow>
          (let (l, sh, r) = runMetro_simultaneous gridSize (p3_temperature s)
                              (p3_lattice s, p3_shadow s, p3_rng s)
           in s\<lparr>p3_lattice := l, p3_shadow := sh, p3_rng := r\<rparr>))"

text \<open>
  The table \<open>algoList\<close>: a function and a speed for each of the eight names. An
  inherited property is an object with neither an \<open>fn\<close> nor a \<open>speed\<close>.
\<close>

definition algoList :: "string \<Rightarrow> (sweep_fn \<times> nat) property" where
  "algoList name =
     (if name = ''typewriter'' then Own (RunMetro_typewriter, 30)
      else if name = ''checkerboard'' then Own (RunMetro_checkerboard, 30)
      else if name = ''diagonal'' then Own (RunMetro_diagonal, 30)
      else if name = ''boustrophedon'' then Own (RunMetro_boustrophedon, 30)
      else if name = ''permuted'' then Own (RunMetro_permuted, 30)
      else if name = ''repermuted'' then Own (RunMetro_re_permuted, 30)
      else if name = ''random'' then Own (RunMetro_random, 30)
      else if name = ''simultaneous'' then Own (RunMetro_simultaneous, 200)
      else if name \<in> set inheritedNames then Inherited
      else Absent)"


text \<open>\<open>init\<close> of program 3: a fresh permutation, then a coin for every site, row by row.\<close>

definition init3 :: "nat \<Rightarrow> p3 \<Rightarrow> p3" where
  "init3 gridSize s =
     (let (perm, r0) = randomPermutation (gridSize * gridSize) (p3_rng s);
          (l, r) = fold (\<lambda>(x, y) (l, r).
                            let (c, r') = coinFlip r in (setCell l x y (if c then 1 else - 1), r'))
                     (rowMajor gridSize) (p3_lattice s, r0)
      in s\<lparr>p3_state := ''scrambled'', p3_permutation := perm, p3_lattice := l, p3_rng := r\<rparr>)"

text \<open>
  The recording loops of the two \<open>stepResponse\<close> routines (programs 3 and 4 have
  the same text): a sweep, then the local correlation added to \<open>rs[j]\<close> and the
  absolute value of the magnetization added to \<open>Hs[j]\<close>.
\<close>

definition recordRH ::
  "('s \<Rightarrow> 's) \<Rightarrow> ('s \<Rightarrow> jsnum) \<Rightarrow> ('s \<Rightarrow> jsnum) \<Rightarrow> nat \<Rightarrow> nat
     \<Rightarrow> 's \<times> jsnum list \<times> jsnum list \<Rightarrow> 's \<times> jsnum list \<times> jsnum list" where
  "recordRH fn corr mag offset j acc =
     (let (s, rs, Hs) = acc;
          s' = fn s
      in (s',
          rs[offset + j := js_add (rs ! (offset + j)) (corr s')],
          Hs[offset + j := js_add (Hs ! (offset + j)) (js_abs (mag s'))]))"

text \<open>
  One repetition: the burn-in and \<open>T1_steps\<close> recorded sweeps at \<open>T1\<close>, then
  \<open>T2_steps\<close> recorded sweeps at \<open>T2\<close>.
\<close>

definition stepRepetition ::
  "('s \<Rightarrow> 's) \<Rightarrow> ('s \<Rightarrow> jsnum) \<Rightarrow> ('s \<Rightarrow> jsnum) \<Rightarrow> (jsnum \<Rightarrow> 's \<Rightarrow> 's)
     \<Rightarrow> jsnum \<Rightarrow> jsnum \<Rightarrow> nat \<Rightarrow> nat \<Rightarrow> nat
     \<Rightarrow> 's \<times> jsnum list \<times> jsnum list \<Rightarrow> 's \<times> jsnum list \<times> jsnum list" where
  "stepRepetition fn corr mag setTemperature T1 T2 T1_steps T2_steps burnin acc =
     (let (s, rs, Hs) = acc;
          s1 = (fn ^^ burnin) (setTemperature T1 s);
          (s2, rs2, Hs2) = fold (recordRH fn corr mag 0) [0..<T1_steps] (s1, rs, Hs)
      in fold (recordRH fn corr mag T1_steps) [0..<T2_steps] (setTemperature T2 s2, rs2, Hs2))"

text \<open>
  \<open>stepResponse\<close> of program 3. \<open>stepSeries3\<close> is the body after the sweep function
  has been read from the table: \<open>init\<close>, the repetitions, and the means \<open>x / reps\<close>
  (as numbers, before \<open>toFixed\<close> turns them into text). Reading \<open>algoList[algo].fn\<close>
  is a TypeError when the table has no property \<open>algo\<close>; for an inherited property
  it is \<open>undefined\<close>, and then the first call \<open>fn()\<close>, if there is one, is a
  TypeError.
\<close>

definition stepSeries3 ::
  "nat \<Rightarrow> (p3 \<Rightarrow> p3) \<Rightarrow> jsnum \<Rightarrow> jsnum \<Rightarrow> nat \<Rightarrow> nat \<Rightarrow> nat \<Rightarrow> nat \<Rightarrow> p3
     \<Rightarrow> jsnum list \<times> jsnum list \<times> p3" where
  "stepSeries3 gridSize fn T1 T2 T1_steps T2_steps burnin reps s =
     (let zeros = replicate (T1_steps + T2_steps) (Fin 0);
          (s1, rs, Hs) =
            fold (\<lambda>i. stepRepetition fn
                         (\<lambda>s'. local_correlations gridSize (p3_lattice s'))
                         (\<lambda>s'. magnetization gridSize (p3_lattice s'))
                         (\<lambda>T s'. s'\<lparr>p3_temperature := T\<rparr>)
                         T1 T2 T1_steps T2_steps burnin)
              [0..<reps] (init3 gridSize s, zeros, zeros)
      in (map (\<lambda>x. js_div x (Fin (real reps))) rs,
          map (\<lambda>x. js_div x (Fin (real reps))) Hs, s1))"

definition stepResponse3 ::
  "nat \<Rightarrow> string \<Rightarrow> jsnum \<Rightarrow> jsnum \<Rightarrow> nat \<Rightarrow> nat \<Rightarrow> nat \<Rightarrow> nat \<Rightarrow> p3
     \<Rightarrow> js_error + (jsnum list \<times> jsnum list \<times> p3)" where
  "stepResponse3 gridSize algo T1 T2 T1_steps T2_steps burnin reps s =
     (case algoList algo of
        Absent \<Rightarrow> Inl TypeError
      | Inherited \<Rightarrow>
          (if 0 < reps \<and> 0 < burnin + T1_steps + T2_steps then Inl TypeError
           else Inr (stepSeries3 gridSize (\<lambda>s'. s') T1 T2 T1_steps T2_steps burnin reps s))
      | Own (fn, speed) \<Rightarrow>
          Inr (stepSeries3 gridSize (runSweep3 gridSize fn) T1 T2 T1_steps T2_steps burnin reps s))"


section \<open>Program 4: sweeps and the step response\<close>

record p4 =
  p4_lattice :: lattice
  p4_temperature :: jsnum
  p4_rng :: rng
  p4_boundaryRule :: string
  p4_algorithm :: string
  p4_state :: string

text \<open>\<open>updateBorderMacrostep\<close>: three of the rules rebuild the border after a sweep.\<close>

definition updateBorderMacrostep :: "nat \<Rightarrow> string \<Rightarrow> lattice \<times> rng \<Rightarrow> lattice \<times> rng" where
  "updateBorderMacrostep gridSize boundaryRule s =
     (if boundaryRule = ''sampled'' then makeSampledBorder gridSize s
      else if boundaryRule = ''underdog'' then makeUnderdogBorder gridSize s
      else if boundaryRule = ''random'' then makeRandomBorder gridSize s
      else s)"

definition runMetro4 :: "nat \<Rightarrow> p4 \<Rightarrow> p4" where
  "runMetro4 gridSize s =
     (let s1 = fold (\<lambda>xy s'. metroMicrostep gridSize (p4_boundaryRule s) (p4_temperature s) s' xy)
                 (interiorCoords gridSize) (p4_lattice s, p4_rng s);
          (l, r) = updateBorderMacrostep gridSize (p4_boundaryRule s) s1
      in s\<lparr>p4_lattice := l, p4_rng := r\<rparr>)"

definition glauberMicrostep :: "nat \<Rightarrow> string \<Rightarrow> jsnum \<Rightarrow> lattice \<times> rng \<Rightarrow> lattice \<times> rng" where
  "glauberMicrostep gridSize boundaryRule temperature s =
     (let (lat, r) = s;
          (x, r1) = randomSource gridSize r;
          (y, r2) = randomSource gridSize r1;
          deltaE = calcDeltaE_halo lat x y;
          w = boltzmann deltaE temperature;
          (u, r3) = random r2
      in if js_lt (Fin u) (js_div w (js_add (Fin 1) w)) then
           (updateBorderMicrostep gridSize boundaryRule (flipCell lat x y) x y, r3)
         else (lat, r3))"

definition runGlauber4 :: "nat \<Rightarrow> p4 \<Rightarrow> p4" where
  "runGlauber4 gridSize s =
     (let s1 = fold (\<lambda>i s'. glauberMicrostep gridSize (p4_boundaryRule s) (p4_temperature s) s')
                 [0..<activeSize gridSize * activeSize gridSize] (p4_lattice s, p4_rng s);
          (l, r) = updateBorderMacrostep gridSize (p4_boundaryRule s) s1
      in s\<lparr>p4_lattice := l, p4_rng := r\<rparr>)"

text \<open>The statistics of program 4 run over the interior, column by column.\<close>

definition interiorColumns :: "nat \<Rightarrow> (nat \<times> nat) list" where
  "interiorColumns gridSize =
     concat (map (\<lambda>x. map (\<lambda>y. (x, y)) [activeTop..<activeBottom gridSize + 1])
               [activeLeft..<activeRight gridSize + 1])"

definition magnetization4 :: "nat \<Rightarrow> lattice \<Rightarrow> jsnum" where
  "magnetization4 gridSize lat =
     js_div (Fin (of_int (sum_list (map (\<lambda>(x, y). cell lat x y) (interiorColumns gridSize)))))
       (Fin (real (activeSize gridSize * activeSize gridSize)))"

definition local_correlations4 :: "nat \<Rightarrow> lattice \<Rightarrow> jsnum" where
  "local_correlations4 gridSize lat =
     js_div (Fin (sum_list (map (\<lambda>(x, y). of_int (calcDeltaE_halo lat x y) / 8)
                              (interiorColumns gridSize))))
       (Fin (real (activeSize gridSize * activeSize gridSize)))"

text \<open>
  \<open>stepResponse\<close> of program 4. The sweep is chosen by the global \<open>algorithm\<close>;
  \<open>init\<close> and every repetition call an entry of \<open>boundaryList\<close>.
\<close>

definition stepResponse4 ::
  "nat \<Rightarrow> string \<Rightarrow> string \<Rightarrow> jsnum \<Rightarrow> jsnum \<Rightarrow> nat \<Rightarrow> nat \<Rightarrow> nat \<Rightarrow> nat \<Rightarrow> p4
     \<Rightarrow> js_error + (jsnum list \<times> jsnum list \<times> p4)" where
  "stepResponse4 gridSize algo boundary T1 T2 T1_steps T2_steps burnin reps s =
     (let zeros = replicate (T1_steps + T2_steps) (Fin 0);
          fn = (if p4_algorithm s = ''metropolis'' then runMetro4 gridSize
                else runGlauber4 gridSize)
      in case init4 gridSize (p4_boundaryRule s) (p4_lattice s, p4_rng s) of
           Inl e \<Rightarrow> Inl e
         | Inr (l0, r0) \<Rightarrow>
             (let s0 = s\<lparr>p4_state := ''scrambled'', p4_lattice := l0, p4_rng := r0\<rparr>
              in if reps = 0 then
                   Inr (map (\<lambda>x. js_div x (Fin (real reps))) zeros,
                        map (\<lambda>x. js_div x (Fin (real reps))) zeros, s0)
                 else case boundaryList boundary of
                   None \<Rightarrow> Inl TypeError
                 | Some makeBorder \<Rightarrow>
                     (let (s1, rs, Hs) =
                            fold (\<lambda>i (s', acc).
                                    let (l, r) = makeBorder gridSize (p4_lattice s', p4_rng s')
                                    in stepRepetition fn
                                         (\<lambda>s'. local_correlations4 gridSize (p4_lattice s'))
                                         (\<lambda>s'. magnetization4 gridSize (p4_lattice s'))
                                         (\<lambda>T s'. s'\<lparr>p4_temperature := T\<rparr>)
                                         T1 T2 T1_steps T2_steps burnin
                                         (s'\<lparr>p4_boundaryRule := boundary, p4_lattice := l,
                                              p4_rng := r\<rparr>, acc))
                              [0..<reps] (s0, zeros, zeros)
                      in Inr (map (\<lambda>x. js_div x (Fin (real reps))) rs,
                              map (\<lambda>x. js_div x (Fin (real reps))) Hs, s1))))"


section \<open>Program 1: the temperature step\<close>

text \<open>
  \<open>decimate_array\<close>: the outer loop advances by \<open>glom_size\<close>, so it need not end;
  a read past the end of the array is \<open>undefined\<close>, and adding it gives NaN.
\<close>

definition elemOrNaN :: "jsnum list \<Rightarrow> nat \<Rightarrow> jsnum" where
  "elemOrNaN arr i = (if i < length arr then arr ! i else NaN)"

definition blockAverage :: "jsnum list \<Rightarrow> nat \<Rightarrow> nat \<Rightarrow> jsnum" where
  "blockAverage arr outer glom_size =
     js_div (foldl js_add (Fin 0) (map (\<lambda>inner. elemOrNaN arr (outer + inner)) [0..<glom_size]))
       (Fin (real glom_size))"

partial_function (option) decimateFrom ::
  "jsnum list \<Rightarrow> nat \<Rightarrow> nat \<Rightarrow> jsnum list \<Rightarrow> jsnum list option" where
  "decimateFrom arr glom_size outer shortArray =
     (if outer < length arr
      then decimateFrom arr glom_size (outer + glom_size)
             (shortArray @ [blockAverage arr outer glom_size])
      else Some shortArray)"

definition decimate_array :: "jsnum list \<Rightarrow> nat \<Rightarrow> jsnum list option" where
  "decimate_array arr glom_size = decimateFrom arr glom_size 0 []"

text \<open>
  The names bound where the last statements of \<open>temperatureStep\<close> run: the
  parameters and local variables of the function, and the declarations and
  assigned names of the script. Reading any other name is a ReferenceError.
\<close>

definition temperatureStepScope :: "string list" where
  "temperatureStepScope =
     [''algo'', ''initState'', ''T1'', ''T2'', ''T1_steps'', ''T2_steps'', ''glom'', ''burnin'',
      ''reps'', ''prefix'', ''cachedDrawLattice'', ''Rs'', ''Ms'', ''fn'', ''R_results'',
      ''M_results'', ''R_short'', ''M_short'', ''R_str'', ''M_str'',
      ''theViz'', ''theCanvas'', ''ctx'', ''Mreadout'', ''Rreadout'', ''theRunButton'',
      ''theStepButton'', ''theResetButton'', ''theTemperatureSlider'', ''temperatureReadout'',
      ''radioButtons'', ''rb'', ''outputDiv'', ''gridSize'', ''N'', ''gridEdge'', ''cellSize'',
      ''upColor'', ''downColor'', ''temperature'', ''timer'', ''algorithm'', ''state'',
      ''lattice'', ''drawLattice'', ''magnetization'', ''local_correlations'',
      ''formatReadout'', ''sign'', ''coinFlip'', ''square'', ''init'', ''calcDeltaE'',
      ''runMetro'', ''runGlauber'', ''doRunButton'', ''doStepButton'', ''doResetButton'',
      ''adjustTemperature'', ''chooseAlgorithm'', ''calc_lattice_energy'', ''here'',
      ''random_state_energy_distribution'', ''i'', ''j'', ''highlightNeutralSites'',
      ''recolorByLocalCorrelation'', ''pointless'', ''equilibriumProperties'',
      ''temperatureStep'', ''decimate_array'', ''outer'', ''inner'', ''showSaveLink'',
      ''saveCanvas'', ''canvasData'', ''hitOrMiss'', ''wt'', ''convergence_time_histogram'',
      ''stepcount'', ''makeCircle'']"

definition readName :: "string \<Rightarrow> js_error + unit" where
  "readName name = (if name \<in> set temperatureStepScope then Inr () else Inl ReferenceError)"

text \<open>
  \<open>temperatureStep\<close>. After the loops and the two decimations the function builds
  \<open>R_str\<close>, which reads \<open>R_short[R_short.length - 1]\<close> and calls \<open>toFixed\<close> on it (a
  TypeError on an empty list), and then assigns \<open>R-str\<close>, which reads the names \<open>R\<close>
  and \<open>str\<close>; the same follows for \<open>M\<close>. The value on success is the pair of
  decimated lists. \<open>None\<close> stands for a call that never returns.
\<close>

definition temperatureStep ::
  "nat \<Rightarrow> string \<Rightarrow> string \<Rightarrow> jsnum \<Rightarrow> jsnum \<Rightarrow> nat \<Rightarrow> nat \<Rightarrow> nat \<Rightarrow> nat \<Rightarrow> nat \<Rightarrow> p1
     \<Rightarrow> (js_error + (jsnum list \<times> jsnum list)) option" where
  "temperatureStep gridSize algo initState T1 T2 T1_steps T2_steps glom burnin reps s =
     (let zeros = replicate (T1_steps + T2_steps) (Fin 0);
          fn = (if algo = ''metro'' then runMetro1 gridSize else runGlauber1 gridSize);
          (s1, Rs, Ms) =
            fold (\<lambda>i (s', acc).
                    stepRepetition fn
                      (\<lambda>s'. local_correlations gridSize (p1_lattice s'))
                      (\<lambda>s'. magnetization gridSize (p1_lattice s'))
                      (\<lambda>T s'. s'\<lparr>p1_temperature := T\<rparr>)
                      T1 T2 T1_steps T2_steps burnin (init1 gridSize initState s', acc))
              [0..<reps] (s, zeros, zeros);
          R_results = map (\<lambda>x. js_div x (Fin (real reps))) Rs;
          M_results = map (\<lambda>x. js_div x (Fin (real reps))) Ms
      in case decimate_array R_results glom of
           None \<Rightarrow> None
         | Some R_short \<Rightarrow>
             (case decimate_array M_results glom of
                None \<Rightarrow> None
              | Some M_short \<Rightarrow>
                  Some (if R_short = [] then Inl TypeError
                        else case readName ''R'' of
                               Inl e \<Rightarrow> Inl e
                             | Inr _ \<Rightarrow>
                                 (case readName ''str'' of
                                    Inl e \<Rightarrow> Inl e
                                  | Inr _ \<Rightarrow>
                                      (if M_short = [] then Inl TypeError
                                       else case readName ''M'' of
                                              Inl e \<Rightarrow> Inl e
                                            | Inr _ \<Rightarrow>
                                                (case readName ''str'' of
                                                   Inl e \<Rightarrow> Inl e
                                                 | Inr _ \<Rightarrow> Inr (R_short, M_short)))))))"


section \<open>Orders on the sites, for the proofs about the generators\<close>

text \<open>
  The sites that the diagonal generator has passed when it stands at \<open>p\<close>: those on
  an earlier anti-diagonal, and those on the same one with a smaller \<open>x\<close>.
\<close>

definition diagBelow :: "nat \<Rightarrow> nat \<times> nat \<Rightarrow> (nat \<times> nat) set" where
  "diagBelow g p = {q \<in> sites g. fst q + snd q < fst p + snd p
                      \<or> (fst q + snd q = fst p + snd p \<and> fst q < fst p)}"

text \<open>
  The same for the boustrophedon generator: earlier rows, and in the same row the
  sites already walked (from the left in an even row, from the right in an odd one).
\<close>

definition bousKey :: "nat \<Rightarrow> nat \<times> nat \<Rightarrow> nat" where
  "bousKey g p = (if snd p mod 2 = 0 then fst p else g - 1 - fst p)"

definition bousBelow :: "nat \<Rightarrow> nat \<times> nat \<Rightarrow> (nat \<times> nat) set" where
  "bousBelow g p = {q \<in> sites g. snd q < snd p \<or> (snd q = snd p \<and> bousKey g q < bousKey g p)}"

definition bousLast :: "nat \<Rightarrow> nat \<times> nat \<Rightarrow> bool" where
  "bousLast g p = (snd p = g - 1 \<and> bousKey g p = g - 1)"


section \<open>Small lattices for the examples\<close>

text \<open>
  A 3 by 3 torus with one spin down at its centre, and two haloed lattices of grid
  side 5 (interior 3 by 3): one as \<open>init\<close> leaves it under the zero rule when every
  coin comes up heads, one with an all-up border.
\<close>

definition torus3 :: lattice where
  "torus3 = [[1, 1, 1], [1, - 1, 1], [1, 1, 1]]"

definition zeroBorder5 :: lattice where
  "zeroBorder5 =
     [[0, 0, 0, 0, 0], [0, 1, 1, 1, 0], [0, 1, 1, 1, 0], [0, 1, 1, 1, 0], [0, 0, 0, 0, 0]]"

text \<open>
  A haloed lattice of grid side 4 (interior 2 by 2) as \<open>init\<close> leaves it under the
  wraparound rule when the first coin comes up tails and the others heads.
\<close>

definition wrap4 :: lattice where
  "wrap4 = [[0, 1, 1, 0], [1, - 1, 1, - 1], [1, 1, 1, 1], [0, - 1, 1, 0]]"


text \<open>Program 1 at rest on a 2 by 2 torus of up spins.\<close>

definition paused2 :: p1 where
  "paused2 = \<lparr>p1_lattice = [[1, 1], [1, 1]], p1_temperature = Fin 1, p1_state = ''paused'',
              p1_rng = always 0, p1_console = []\<rparr>"

text \<open>Program 3 at rest on a 2 by 2 torus, its selector holding a name the table lacks.\<close>

definition bogus3 :: p3 where
  "bogus3 = \<lparr>p3_lattice = [[1, 1], [1, 1]], p3_shadow = [[1, 1], [1, 1]],
              p3_temperature = Fin 1, p3_rng = always 0, p3_permutation = [0, 1, 2, 3],
              p3_state = ''paused'', p3_algorithm = ''bogus'', p3_label = ''Run''\<rparr>"

text \<open>
  The 2 by 2 torus of down spins, program 2 at rest on the torus of up spins, and
  program 4 at rest on the lattice \<open>wrap4\<close>.
\<close>

definition down2 :: lattice where
  "down2 = [[- 1, - 1], [- 1, - 1]]"

definition rest2 :: p2 where
  "rest2 = \<lparr>p2_lattice = [[1, 1], [1, 1]], p2_temperature = Fin 1, p2_rng = always 0,
             p2_visitationFn = ''deterministic'', p2_acceptanceFn = ''M_rule'',
             p2_itinerary = None, p2_state = ''paused'', p2_console = []\<rparr>"

definition rest4 :: p4 where
  "rest4 = \<lparr>p4_lattice = wrap4, p4_temperature = Fin 1, p4_rng = always 0,
             p4_boundaryRule = ''wraparound'', p4_algorithm = ''metropolis'',
             p4_state = ''paused''\<rparr>"

text \<open>
  A 3 by 3 torus on which the centre has two neighbours up and two down, and
  program 5 idle at the start of a sweep on a 2 by 2 torus with one spin down.
\<close>

definition stripe3 :: lattice where
  "stripe3 = [[1, - 1, 1], [1, 1, 1], [1, - 1, 1]]"

definition idle2 :: p5 where
  "idle2 = \<lparr>p5_micro = \<lparr>lattice = [[1, 1], [1, - 1]],
                            toBeFlippedArray = [[False, False], [False, False]],
                            visitedArray = [[False, False], [False, False]],
                            gen = always 0\<rparr>,
             p5_XYiterator = simultaneousGen 2 0 0, p5_state = ''idle'', p5_runLabel = ''Run''\<rparr>"

definition upBorder5 :: lattice where
  "upBorder5 =
     [[0, 1, 1, 1, 0], [1, 1, - 1, 1, 1], [1, 1, 1, 1, 1], [1, 1, 1, 1, 1], [0, 1, 1, 1, 0]]"


section \<open>Facts about numbers and lattices\<close>

lemma MAX_VALUE_pos: "0 < MAX_VALUE"
  by (simp add: MAX_VALUE_def)

lemma MAX_lt_threshold: "MAX_VALUE < threshold"
  by (simp add: MAX_VALUE_def threshold_def)

lemma MAX_VALUE_ge_pow: "(2::real) ^ 1023 \<le> MAX_VALUE"
proof -
  have "1 * (2::real) ^ 1023 \<le> (2 - 1 / 2 ^ 52) * 2 ^ 1023"
    by (rule mult_right_mono) simp_all
  then show ?thesis by (simp add: MAX_VALUE_def)
qed

lemma MAX_VALUE_ge_1: "1 \<le> MAX_VALUE"
proof -
  have "(1::real) \<le> 2 ^ 1023" by simp
  then show ?thesis using MAX_VALUE_ge_pow by linarith
qed

lemma overflow_in_range: "\<bar>r\<bar> \<le> MAX_VALUE \<Longrightarrow> overflow r = Fin r"
  using MAX_lt_threshold by (auto simp: overflow_def)

lemma overflow_nonneg:
  "0 \<le> r \<Longrightarrow> overflow r = PosInf \<or> (\<exists>w. overflow r = Fin w \<and> 0 \<le> w \<and> w \<le> MAX_VALUE)"
  using MAX_VALUE_pos MAX_lt_threshold by (auto simp: overflow_def)

lemma MIN_VALUE_pos: "0 < MIN_VALUE"
  by (simp add: MIN_VALUE_def)

lemma MIN_VALUE_le_1: "MIN_VALUE \<le> 1"
  by (simp add: MIN_VALUE_def)

lemma MIN_le_MAX: "MIN_VALUE \<le> MAX_VALUE"
  using MIN_VALUE_le_1 MAX_VALUE_ge_1 by linarith

lemma js_exp_cases:
  "a \<noteq> NaN \<Longrightarrow> js_exp a = PosInf \<or> (\<exists>w. js_exp a = Fin w \<and> 0 \<le> w \<and> w \<le> MAX_VALUE)"
  using overflow_nonneg[of "exp r" for r] MAX_VALUE_pos MIN_VALUE_pos MIN_le_MAX
  by (cases a) (auto simp: less_imp_le)

lemma js_min_MAX:
  "a = PosInf \<or> (\<exists>w. a = Fin w \<and> 0 \<le> w \<and> w \<le> MAX_VALUE) \<Longrightarrow>
   \<exists>w. js_min a (Fin MAX_VALUE) = Fin w \<and> 0 \<le> w \<and> w \<le> MAX_VALUE"
  using MAX_VALUE_pos by auto

lemma js_div_pos_not_NaN: "0 < t \<Longrightarrow> js_div (Fin a) (Fin t) \<noteq> NaN"
  by (auto simp: overflow_def)

lemma boltzmann_finite_pos:
  assumes "0 < t"
  shows "\<exists>w. boltzmann d (Fin t) = Fin w \<and> 0 \<le> w \<and> w \<le> MAX_VALUE"
  unfolding boltzmann_def
  by (rule js_min_MAX, rule js_exp_cases)
     (simp only: js_neg.simps js_div_pos_not_NaN[OF assms] not_False_eq_True)

lemma boltzmann_finite_PosInf:
  "\<exists>w. boltzmann d PosInf = Fin w \<and> 0 \<le> w \<and> w \<le> MAX_VALUE"
  unfolding boltzmann_def
  by (rule js_min_MAX, rule js_exp_cases) simp

lemma one_plus_MAX_lt_threshold: "1 + MAX_VALUE < threshold"
proof -
  have "(1::real) < 2 ^ 970" by (rule one_less_power) simp_all
  moreover have "threshold - MAX_VALUE = (2::real) ^ 970"
    by (simp add: threshold_def MAX_VALUE_def algebra_simps)
  ultimately show ?thesis by linarith
qed

lemma js_add_one_cases:
  assumes "0 \<le> w" "w \<le> MAX_VALUE"
  shows "\<exists>s. js_add (Fin 1) (Fin w) = Fin s \<and> 1 \<le> s \<and> w \<le> s \<and> s \<le> MAX_VALUE"
proof -
  have "1 + w < threshold" using assms one_plus_MAX_lt_threshold by linarith
  moreover have "- threshold < 1 + w" using assms MAX_VALUE_pos MAX_lt_threshold by linarith
  ultimately show ?thesis
    using assms MAX_VALUE_ge_1 by (auto simp: overflow_def)
qed

lemma gweight_finite:
  assumes "0 \<le> w" "w \<le> MAX_VALUE"
  shows "\<exists>p. js_div (Fin w) (js_add (Fin 1) (Fin w)) = Fin p \<and> 0 \<le> p \<and> p \<le> 1"
proof -
  obtain s where s: "js_add (Fin 1) (Fin w) = Fin s" "1 \<le> s" "w \<le> s"
    using js_add_one_cases[OF assms] by blast
  have q: "0 \<le> w / s" "w / s \<le> 1" using s assms by (simp_all add: divide_le_eq)
  then have "\<bar>w / s\<bar> \<le> MAX_VALUE" using MAX_VALUE_ge_1 by linarith
  then have "overflow (w / s) = Fin (w / s)" by (rule overflow_in_range)
  then show ?thesis using s q by auto
qed

lemma random_always [simp]: "random (always u) = (u, always u)"
  by (simp add: random_def always_def)

lemma cell_setCell_same:
  "square_grid g lat \<Longrightarrow> x < g \<Longrightarrow> y < g \<Longrightarrow> cell (setCell lat x y v) x y = v"
  by (simp add: cell_def setCell_def square_grid_def list_all_length)

lemma cell_setCell_other:
  "x' \<noteq> x \<or> y' \<noteq> y \<Longrightarrow> cell (setCell lat x y v) x' y' = cell lat x' y'"
proof (cases "x' = x")
  case False
  then show ?thesis by (simp add: cell_def setCell_def)
next
  case True
  assume "x' \<noteq> x \<or> y' \<noteq> y"
  with True have "y' \<noteq> y" by simp
  then show ?thesis using True
    by (cases "x < length lat") (simp_all add: cell_def setCell_def list_update_beyond not_less)
qed

lemma length_setCell_nth:
  "length (setCell lat x y v ! n) = length (lat ! n)"
  by (cases "x < length lat"; cases "n = x")
     (simp_all add: setCell_def list_update_beyond not_less)

lemma square_grid_setCell [simp]:
  "square_grid g (setCell lat x y v) = square_grid g lat"
proof -
  have "length (setCell lat x y v) = length lat" by (simp add: setCell_def)
  then show ?thesis
    by (simp add: square_grid_def list_all_length length_setCell_nth)
qed

lemma square_grid_flipCell [simp]:
  "square_grid g (flipCell lat x y) = square_grid g lat"
  by (simp add: flipCell_def)

lemma cell_flipCell_same:
  "square_grid g lat \<Longrightarrow> x < g \<Longrightarrow> y < g \<Longrightarrow> cell (flipCell lat x y) x y = - cell lat x y"
  by (simp add: flipCell_def cell_setCell_same)

lemma cell_flipCell_other:
  "x' \<noteq> x \<or> y' \<noteq> y \<Longrightarrow> cell (flipCell lat x y) x' y' = cell lat x' y'"
  by (simp add: flipCell_def cell_setCell_other)

lemma spin_prod_cases:
  fixes c n s e w :: int
  assumes "c = 1 \<or> c = - 1" "n = 1 \<or> n = - 1" "s = 1 \<or> s = - 1"
    "e = 1 \<or> e = - 1" "w = 1 \<or> w = - 1"
  shows "2 * c * (n + s + e + w) \<in> {- 8, - 4, 0, 4, 8}"
  using assms by auto

lemma halo_prod_cases:
  fixes c n s e w :: int
  assumes "c = 1 \<or> c = - 1" "n = 1 \<or> n = - 1 \<or> n = 0" "s = 1 \<or> s = - 1 \<or> s = 0"
    "e = 1 \<or> e = - 1 \<or> e = 0" "w = 1 \<or> w = - 1 \<or> w = 0"
  shows "2 * c * (n + s + e + w) \<in> {- 8, - 6, - 4, - 2, 0, 2, 4, 6, 8}"
  using assms by auto

lemma all_spins_cell:
  "all_spins lat \<Longrightarrow> square_grid g lat \<Longrightarrow> x < g \<Longrightarrow> y < g \<Longrightarrow>
   cell lat x y = 1 \<or> cell lat x y = - 1"
  by (auto simp: all_spins_def square_grid_def cell_def list_all_length)

lemma halo_spins_iff:
  "halo_spins g lat \<longleftrightarrow>
     (\<forall>x<g. \<forall>y<g. if interior g x y then cell lat x y = 1 \<or> cell lat x y = - 1
                     else cell lat x y = 1 \<or> cell lat x y = - 1 \<or> cell lat x y = 0)"
  unfolding halo_spins_def list_all_iff by (simp add: Ball_def)

lemma halo_spins_interior:
  assumes "halo_spins g lat" "interior g x y"
  shows "cell lat x y = 1 \<or> cell lat x y = - 1"
proof -
  have "x < g" "y < g" using assms(2) by (auto simp: interior_def)
  then show ?thesis using assms unfolding halo_spins_iff by metis
qed

lemma halo_spins_any:
  assumes "halo_spins g lat" "x < g" "y < g"
  shows "cell lat x y = 1 \<or> cell lat x y = - 1 \<or> cell lat x y = 0"
  using assms unfolding halo_spins_iff by metis

lemma calcDeltaE_torus_values:
  assumes "square_grid g lat" "all_spins lat" "x < g" "y < g"
  shows "calcDeltaE g lat x y \<in> {- 8, - 4, 0, 4, 8}"
proof -
  note c = all_spins_cell[OF assms(2) assms(1)]
  show ?thesis unfolding calcDeltaE_def Let_def
    by (rule spin_prod_cases; rule c) (use assms in auto)
qed

lemma calcDeltaE_halo_values:
  assumes "halo_spins g lat" "interior g x y"
  shows "calcDeltaE_halo lat x y \<in> {- 8, - 6, - 4, - 2, 0, 2, 4, 6, 8}"
proof -
  have b: "x - 1 < g" "x + 1 < g" "y - 1 < g" "y + 1 < g" "x < g" "y < g"
    using assms(2) by (auto simp: interior_def)
  show ?thesis unfolding calcDeltaE_halo_def Let_def
    by (rule halo_prod_cases;
        (rule halo_spins_interior[OF assms] | rule halo_spins_any[OF assms(1)]); rule b)
qed


section \<open>Facts about the Boltzmann weight\<close>

lemma exp_ge_pow2: "(2::real) ^ n \<le> exp (real n)"
proof -
  have "(2::real) ^ n \<le> exp 1 ^ n"
    by (rule power_mono) (use exp_ge_add_one_self[of 1] in simp_all)
  also have "\<dots> = exp (real n)" by (simp add: exp_of_nat_mult[symmetric])
  finally show ?thesis .
qed

lemma MAX_VALUE_ge_1075: "1075 \<le> MAX_VALUE"
proof -
  have "(1075::real) \<le> 2 ^ 1023" by simp
  then show ?thesis using MAX_VALUE_ge_pow by linarith
qed

lemma exp_underflows: "x \<le> - 1075 \<Longrightarrow> exp x \<le> MIN_VALUE / 2"
proof -
  assume "x \<le> - 1075"
  then have "exp x \<le> exp (- real (1075::nat))" by simp
  also have "\<dots> = 1 / exp (real (1075::nat))" by (simp only: exp_minus inverse_eq_divide)
  also have "\<dots> \<le> 1 / 2 ^ 1075"
    by (rule divide_left_mono) (use exp_ge_pow2[of 1075] in simp_all)
  also have "\<dots> = MIN_VALUE / 2" by (simp add: MIN_VALUE_def)
  finally show ?thesis .
qed

lemma clamp_overflow:
  "0 \<le> e \<Longrightarrow> js_min (overflow e) (Fin MAX_VALUE) = Fin (min e MAX_VALUE)"
  using MAX_VALUE_pos MAX_lt_threshold by (auto simp: overflow_def)

lemma clamp_exp:
  "js_min (js_exp (Fin a)) (Fin MAX_VALUE)
     = Fin (if exp a \<le> MIN_VALUE / 2 then 0
            else if exp a < MIN_VALUE then MIN_VALUE else min (exp a) MAX_VALUE)"
  using MAX_VALUE_pos MIN_le_MAX by (simp add: clamp_overflow)

lemma clampedWeight_alt:
  "clampedWeight d t
     = (if exp (- (real_of_int d / t)) \<le> MIN_VALUE / 2 then 0
        else if exp (- (real_of_int d / t)) < MIN_VALUE then MIN_VALUE
        else min (exp (- (real_of_int d / t))) MAX_VALUE)"
  by (simp add: clampedWeight_def Let_def)

lemma boltzmann_clampedWeight:
  assumes "0 < t"
  shows "boltzmann d (Fin t) = Fin (clampedWeight d t)"
proof -
  define x where "x = - (real_of_int d / t)"
  have dv: "js_div (js_neg (Fin (of_int d))) (Fin t) = overflow x"
    using assms by (simp add: x_def)
  have b: "boltzmann d (Fin t) = js_min (js_exp (overflow x)) (Fin MAX_VALUE)"
    unfolding boltzmann_def dv ..
  note cw = clampedWeight_alt[of d t, folded x_def]
  consider (hi) "threshold \<le> x" | (mid) "MAX_VALUE < x" "x < threshold"
    | (inr) "\<bar>x\<bar> \<le> MAX_VALUE" | (lo) "x < - MAX_VALUE" "- threshold < x"
    | (vlo) "x \<le> - threshold"
    by linarith
  then show ?thesis
  proof cases
    case hi
    then have big: "MAX_VALUE < exp x"
      using exp_ge_add_one_self[of x] MAX_lt_threshold by linarith
    have o: "overflow x = PosInf" using hi by (simp add: overflow_def)
    have "boltzmann d (Fin t) = Fin MAX_VALUE" unfolding b o by simp
    moreover have "clampedWeight d t = MAX_VALUE"
      unfolding cw using big MIN_le_MAX MIN_VALUE_pos by simp
    ultimately show ?thesis by simp
  next
    case mid
    then have big: "MAX_VALUE < exp x"
      using exp_ge_add_one_self[of x] by linarith
    have bigM: "MAX_VALUE < exp MAX_VALUE"
      using exp_ge_add_one_self[of MAX_VALUE] by linarith
    have o: "overflow x = Fin MAX_VALUE"
      using mid MAX_VALUE_pos MAX_lt_threshold by (simp add: overflow_def)
    have "boltzmann d (Fin t) = Fin MAX_VALUE"
      unfolding b o clamp_exp using bigM MIN_le_MAX MIN_VALUE_pos by simp
    moreover have "clampedWeight d t = MAX_VALUE"
      unfolding cw using big MIN_le_MAX MIN_VALUE_pos by simp
    ultimately show ?thesis by simp
  next
    case inr
    then have o: "overflow x = Fin x" by (rule overflow_in_range)
    show ?thesis unfolding b o clamp_exp cw ..
  next
    case lo
    have a: "exp (- MAX_VALUE) \<le> MIN_VALUE / 2"
      by (rule exp_underflows) (use MAX_VALUE_ge_1075 in linarith)
    have c: "exp x \<le> MIN_VALUE / 2"
      by (rule exp_underflows) (use lo MAX_VALUE_ge_1075 in linarith)
    have o: "overflow x = Fin (- MAX_VALUE)"
      using lo MAX_VALUE_pos MAX_lt_threshold by (simp add: overflow_def)
    have "boltzmann d (Fin t) = Fin 0"
      unfolding b o clamp_exp using a by simp
    moreover have "clampedWeight d t = 0"
      unfolding cw using c by simp
    ultimately show ?thesis by simp
  next
    case vlo
    have c: "exp x \<le> MIN_VALUE / 2"
      by (rule exp_underflows) (use vlo MAX_VALUE_ge_1075 MAX_lt_threshold in linarith)
    have o: "overflow x = NegInf"
      using vlo MAX_VALUE_pos MAX_lt_threshold by (simp add: overflow_def)
    have "boltzmann d (Fin t) = Fin 0"
      unfolding b o using MAX_VALUE_pos by simp
    moreover have "clampedWeight d t = 0"
      unfolding cw using c by simp
    ultimately show ?thesis by simp
  qed
qed

lemma clampedWeight_range: "0 \<le> clampedWeight d t \<and> clampedWeight d t \<le> MAX_VALUE"
  unfolding clampedWeight_alt using MAX_VALUE_pos MIN_le_MAX MIN_VALUE_pos by auto

lemma clampedWeight_uphill:
  assumes "0 < d" "0 < t"
  shows "clampedWeight d t < 1"
proof -
  define e where "e = exp (- (real_of_int d / t))"
  have "0 < real_of_int d / t" using assms by simp
  then have e: "e < 1" unfolding e_def by simp
  have m: "MIN_VALUE < 1" by (simp add: MIN_VALUE_def)
  have "min e MAX_VALUE < 1" using e by simp
  then show ?thesis unfolding clampedWeight_alt e_def[symmetric] using m by simp
qed

lemma clampedWeight_downhill:
  assumes "d \<le> 0" "0 < t"
  shows "1 \<le> clampedWeight d t"
proof -
  define e where "e = exp (- (real_of_int d / t))"
  have "real_of_int d / t \<le> 0" using assms by (simp add: divide_le_0_iff)
  then have e: "1 \<le> e" unfolding e_def by simp
  have m: "MIN_VALUE \<le> 1" "0 < MIN_VALUE" by (simp_all add: MIN_VALUE_def)
  have a: "\<not> e \<le> MIN_VALUE / 2" "\<not> e < MIN_VALUE" using e m by linarith+
  have "1 \<le> min e MAX_VALUE" using e MAX_VALUE_ge_1 by simp
  then show ?thesis unfolding clampedWeight_alt e_def[symmetric] using a by simp
qed

lemma gRatio_eq:
  "js_div (Fin (clampedWeight d t)) (js_add (Fin 1) (Fin (clampedWeight d t))) = Fin (gRatio d t)"
proof -
  define w where "w = clampedWeight d t"
  have w: "0 \<le> w" "w \<le> MAX_VALUE" using clampedWeight_range[of d t] by (simp_all add: w_def)
  have "1 + w < threshold" using w one_plus_MAX_lt_threshold by linarith
  moreover have "- threshold < 1 + w" using w MAX_VALUE_pos MAX_lt_threshold by linarith
  ultimately have s: "js_add (Fin 1) (Fin w) = Fin (min (1 + w) MAX_VALUE)"
    using w by (auto simp: overflow_def)
  have m: "1 \<le> min (1 + w) MAX_VALUE" "w \<le> min (1 + w) MAX_VALUE"
    using w MAX_VALUE_ge_1 by simp_all
  then have q: "0 \<le> w / min (1 + w) MAX_VALUE" "w / min (1 + w) MAX_VALUE \<le> 1"
    using w by (simp_all add: divide_le_eq)
  then have "\<bar>w / min (1 + w) MAX_VALUE\<bar> \<le> MAX_VALUE" using MAX_VALUE_ge_1 by linarith
  then have "overflow (w / min (1 + w) MAX_VALUE) = Fin (w / min (1 + w) MAX_VALUE)"
    by (rule overflow_in_range)
  moreover have "min (1 + w) MAX_VALUE \<noteq> 0" using m by linarith
  ultimately have "js_div (Fin w) (Fin (min (1 + w) MAX_VALUE)) = Fin (w / min (1 + w) MAX_VALUE)"
    by (simp only: js_div.simps if_False)
  then show ?thesis unfolding s gRatio_def Let_def w_def[symmetric] .
qed

lemma gRatio_range: "0 \<le> gRatio d t \<and> gRatio d t \<le> 1"
proof -
  define w where "w = clampedWeight d t"
  have w: "0 \<le> w" "w \<le> MAX_VALUE" using clampedWeight_range[of d t] by (simp_all add: w_def)
  have m: "1 \<le> min (1 + w) MAX_VALUE" "w \<le> min (1 + w) MAX_VALUE"
    using w MAX_VALUE_ge_1 by simp_all
  then have "0 \<le> w / min (1 + w) MAX_VALUE" "w / min (1 + w) MAX_VALUE \<le> 1"
    using w by (simp_all add: divide_le_eq)
  then show ?thesis by (simp add: gRatio_def Let_def w_def)
qed

lemma gRatio_overflow:
  "js_div (Fin (clampedWeight d t)) (overflow (1 + clampedWeight d t)) = Fin (gRatio d t)"
  using gRatio_eq[of d t] by simp

lemma M_site:
  assumes "0 < t"
  shows "MRuleFn g lat (Fin t) r x y
     = (calcDeltaE g lat x y \<le> 0 \<or> r 0 < clampedWeight (calcDeltaE g lat x y) t,
        if calcDeltaE g lat x y \<le> 0 then r else snd (random r))"
  by (simp add: MRuleFn_def Let_def boltzmann_clampedWeight[OF assms] random_def)

lemma Mstar_site:
  assumes "0 < t"
  shows "MstarRuleFn g lat (Fin t) r x y
     = (calcDeltaE g lat x y < 0 \<or> (calcDeltaE g lat x y = 0 \<and> r 0 < 1 / 2)
          \<or> (0 < calcDeltaE g lat x y \<and> r 0 < clampedWeight (calcDeltaE g lat x y) t),
        if calcDeltaE g lat x y < 0 then r else snd (random r))"
  by (auto simp: MstarRuleFn_def Let_def boltzmann_clampedWeight[OF assms] random_def coinFlip_def)

lemma G_site:
  assumes "0 < t"
  shows "GRuleFn g lat (Fin t) r x y = (r 0 < gRatio (calcDeltaE g lat x y) t, snd (random r))"
  by (simp add: GRuleFn_def Let_def boltzmann_clampedWeight[OF assms] gRatio_overflow random_def)

lemma updateSpin2_M_site:
  assumes "0 < t"
  shows "updateSpin2 g ''M_rule'' (Fin t) (lat, r) x y
     = (if calcDeltaE g lat x y \<le> 0 \<or> r 0 < clampedWeight (calcDeltaE g lat x y) t
        then flipCell lat x y else lat,
        if calcDeltaE g lat x y \<le> 0 then r else snd (random r))"
  by (simp add: updateSpin2_def Let_def boltzmann_clampedWeight[OF assms] random_def)

lemma updateSpin2_G_site:
  assumes "0 < t"
  shows "updateSpin2 g ''G_rule'' (Fin t) (lat, r) x y
     = (if r 0 < gRatio (calcDeltaE g lat x y) t then flipCell lat x y else lat, snd (random r))"
  by (simp add: updateSpin2_def Let_def boltzmann_clampedWeight[OF assms] gRatio_overflow random_def)

lemma updateSpin2_Mstar_site:
  assumes "0 < t"
  shows "updateSpin2 g ''M_star_rule'' (Fin t) (lat, r) x y
     = (if calcDeltaE g lat x y < 0 \<or> (calcDeltaE g lat x y = 0 \<and> r 0 < 1 / 2)
            \<or> (0 < calcDeltaE g lat x y \<and> r 0 < clampedWeight (calcDeltaE g lat x y) t)
        then flipCell lat x y else lat,
        if calcDeltaE g lat x y < 0 then r else snd (random r))"
  by (auto simp: updateSpin2_def Let_def boltzmann_clampedWeight[OF assms] random_def coinFlip_def)

lemma metroStep1_site:
  assumes "0 < t"
  shows "metroStep1 g (Fin t) (lat, r) (x, y)
     = (if calcDeltaE g lat x y \<le> 0 \<or> r 0 < clampedWeight (calcDeltaE g lat x y) t
        then flipCell lat x y else lat,
        if calcDeltaE g lat x y \<le> 0 then r else snd (random r))"
  by (simp add: metroStep1_def Let_def boltzmann_clampedWeight[OF assms] random_def)

lemma glauberStep1_site:
  assumes "0 < t"
  shows "glauberStep1 g (Fin t) (lat, r)
     = (let (x, r1) = randomIndex g r; (y, r2) = randomIndex g r1; (u, r3) = random r2
        in (if u < gRatio (calcDeltaE g lat x y) t then flipCell lat x y else lat, r3))"
  by (simp add: glauberStep1_def Let_def boltzmann_clampedWeight[OF assms] gRatio_overflow
      split: prod.splits)

lemma simultaneousStep_site:
  assumes "0 < t"
  shows "simultaneousStep g (Fin t) (lat, sh, r) (x, y)
     = (lat,
        if calcDeltaE g lat x y \<le> 0 \<or> r 0 < clampedWeight (calcDeltaE g lat x y) t
        then flipCell (setCell sh x y (cell lat x y)) x y else setCell sh x y (cell lat x y),
        if calcDeltaE g lat x y \<le> 0 then r else snd (random r))"
  by (simp add: simultaneousStep_def Let_def boltzmann_clampedWeight[OF assms] random_def)

lemma metroMicrostep_site:
  assumes "0 < t"
  shows "metroMicrostep g rule (Fin t) (lat, r) (x, y)
     = (if calcDeltaE_halo lat x y \<le> 0 \<or> r 0 < clampedWeight (calcDeltaE_halo lat x y) t
        then updateBorderMicrostep g rule (flipCell lat x y) x y else lat,
        if calcDeltaE_halo lat x y \<le> 0 then r else snd (random r))"
  by (simp add: metroMicrostep_def Let_def boltzmann_clampedWeight[OF assms] random_def)

lemma glauberMicrostep_site:
  assumes "0 < t"
  shows "glauberMicrostep g rule (Fin t) (lat, r)
     = (let (x, r1) = randomSource g r; (y, r2) = randomSource g r1; (u, r3) = random r2
        in (if u < gRatio (calcDeltaE_halo lat x y) t
            then updateBorderMicrostep g rule (flipCell lat x y) x y else lat, r3))"
  by (simp add: glauberMicrostep_def Let_def boltzmann_clampedWeight[OF assms] gRatio_overflow
      split: prod.splits)

lemma clampedWeight_formula:
  "MIN_VALUE \<le> exp (- (real_of_int d / t)) \<Longrightarrow>
   clampedWeight d t = min (exp (- (real_of_int d / t))) MAX_VALUE"
  unfolding clampedWeight_alt using MIN_VALUE_pos by auto

lemma clampedWeight_zero:
  "exp (- (real_of_int d / t)) \<le> MIN_VALUE / 2 \<Longrightarrow> clampedWeight d t = 0"
  unfolding clampedWeight_alt by simp

lemma exp_800_underflows: "exp (- 800) \<le> MIN_VALUE / 2"
proof -
  have h: "(13 / 8 :: real) \<le> exp (1 / 2)"
    using exp_lower_Taylor_quadratic[of "1 / 2 :: real"] by (simp add: power2_eq_square)
  have "(2::real) ^ 1120 = (2 ^ 7) ^ 160" by (simp only: power_mult[symmetric]) simp
  also have "\<dots> \<le> ((13 / 8) ^ 10) ^ 160"
    by (rule power_mono) (simp_all add: power_divide)
  also have "\<dots> = (13 / 8 :: real) ^ 1600" by (simp only: power_mult[symmetric]) simp
  also have "\<dots> \<le> exp (1 / 2) ^ 1600" by (rule power_mono) (use h in simp_all)
  also have "\<dots> = exp 800" by (simp add: exp_of_nat_mult[symmetric])
  finally have a: "(2::real) ^ 1120 \<le> exp 800" .
  have "(2::real) ^ 1075 \<le> 2 ^ 1120" by (rule power_increasing) simp_all
  then have b: "(2::real) ^ 1075 \<le> exp 800" using a by linarith
  have "exp (- 800 :: real) = 1 / exp 800" by (simp only: exp_minus inverse_eq_divide)
  also have "\<dots> \<le> 1 / 2 ^ 1075" by (rule divide_left_mono) (use b in simp_all)
  also have "\<dots> = MIN_VALUE / 2" by (simp add: MIN_VALUE_def)
  finally show ?thesis .
qed

lemma exp_neg8_bounds:
  "MIN_VALUE \<le> exp (- 8 :: real)" "exp (- 8 :: real) \<le> 1 / 2" "0 < exp (- 8 :: real)"
proof -
  have "exp (8::real) = exp 1 ^ 8" by (simp add: exp_of_nat_mult[symmetric])
  also have "\<dots> \<le> 3 ^ 8" by (rule power_mono) (use exp_le in simp_all)
  also have "\<dots> \<le> (2::real) ^ 1074" by simp
  finally have u: "exp (8::real) \<le> 2 ^ 1074" .
  have e: "exp (- 8 :: real) = 1 / exp 8" by (simp only: exp_minus inverse_eq_divide)
  have "MIN_VALUE = 1 / 2 ^ 1074" by (simp add: MIN_VALUE_def)
  also have "\<dots> \<le> 1 / exp 8" by (rule divide_left_mono) (use u in simp_all)
  finally show "MIN_VALUE \<le> exp (- 8 :: real)" using e by simp
  have "(2::real) ^ 8 \<le> exp 8" using exp_ge_pow2[of 8] by simp
  then have "1 / exp (8::real) \<le> 1 / 2 ^ 8" by (intro divide_left_mono) simp_all
  then show "exp (- 8 :: real) \<le> 1 / 2" using e by simp
  show "0 < exp (- 8 :: real)" by simp
qed

lemma weight_8_1: "0 < clampedWeight 8 1" "clampedWeight 8 1 \<le> 1 / 2"
proof -
  have "clampedWeight 8 1 = min (exp (- 8)) MAX_VALUE"
    using clampedWeight_formula[of 8 1] exp_neg8_bounds(1) by simp
  then show "0 < clampedWeight 8 1" "clampedWeight 8 1 \<le> 1 / 2"
    using exp_neg8_bounds MAX_VALUE_pos by simp_all
qed

lemma weight_8_cold: "clampedWeight 8 (1 / 100) = 0"
  using clampedWeight_zero[of 8 "1 / 100"] exp_800_underflows by simp

lemma exp_8000_big: "threshold \<le> exp 8000"
proof -
  have a: "(2::real) ^ 8000 \<le> exp 8000" using exp_ge_pow2[of 8000] by simp
  have "threshold \<le> 2 * 2 ^ 1023" unfolding threshold_def by (rule mult_right_mono) simp_all
  also have "\<dots> \<le> (2::real) ^ 8000" by simp
  finally show ?thesis using a by linarith
qed

lemma weight_hot: "clampedWeight (- 8) (1 / 1000) = MAX_VALUE" "gRatio (- 8) (1 / 1000) = 1"
proof -
  have m: "MIN_VALUE \<le> exp 8000" "MAX_VALUE \<le> exp 8000"
    using exp_8000_big MAX_lt_threshold MIN_le_MAX by linarith+
  show w: "clampedWeight (- 8) (1 / 1000) = MAX_VALUE"
    using clampedWeight_formula[of "- 8" "1 / 1000"] m by simp
  show "gRatio (- 8) (1 / 1000) = 1"
    using MAX_VALUE_pos by (simp add: gRatio_def Let_def w)
qed

lemma clamp_needed:
  "js_exp (js_div (js_neg (Fin (of_int (- 8)))) (Fin (1 / 1000))) = PosInf"
proof -
  have "(8000::real) \<le> 2 ^ 1023" by simp
  then have "\<bar>8000::real\<bar> \<le> MAX_VALUE" using MAX_VALUE_ge_pow by linarith
  then have "js_div (js_neg (Fin (of_int (- 8)))) (Fin (1 / 1000)) = Fin 8000"
    by (simp add: overflow_in_range)
  moreover have "MIN_VALUE \<le> exp 8000"
    using exp_8000_big MAX_lt_threshold MIN_le_MAX by linarith
  ultimately show ?thesis
    using exp_8000_big MIN_VALUE_pos by (simp add: overflow_def)
qed

lemma dE_torus3: "calcDeltaE 3 torus3 0 0 = 8" "calcDeltaE 3 torus3 1 1 = - 8"
  by (simp_all add: calcDeltaE_def cell_def torus3_def)

lemma dE_stripe3: "calcDeltaE 3 stripe3 1 1 = 0"
  by (simp add: calcDeltaE_def cell_def stripe3_def)


section \<open>The acceptance rules (claim C1)\<close>

text \<open>
  C1. At a site of the grid, at a positive temperature \<open>t\<close> and whatever the draw
  \<open>u\<close> of the generator: the Boltzmann weight the code computes is the number
  \<open>clampedWeight deltaE t\<close>, which is \<open>exp(-deltaE / t)\<close> cut off at \<open>MAX_VALUE\<close> unless
  the exponential underflows, and 0 when it underflows to 0. The M-rule flips when
  \<open>deltaE \<le> 0\<close>, without a draw and at any temperature, and otherwise exactly
  when \<open>u\<close> is strictly below the weight; the M*-rule flips when \<open>deltaE < 0\<close>, flips
  at \<open>deltaE = 0\<close> exactly when the coin \<open>u < 0.5\<close> comes up, and for \<open>deltaE > 0\<close>
  is the M-rule (same decision, same use of the generator). Program 2's
  \<open>updateSpin\<close> negates the spin of the site exactly when the rule says flip.
\<close>

theorem acceptance_rules:
  assumes "square_grid g lat" "x < g" "y < g" "0 < t"
  shows "let dE = calcDeltaE g lat x y; u = r 0; w = clampedWeight dE t;
             m = (dE \<le> 0 \<or> u < w);
             mstar = (dE < 0 \<or> (dE = 0 \<and> u < 1 / 2) \<or> (0 < dE \<and> u < w))
         in boltzmann dE (Fin t) = Fin w
          \<and> (MIN_VALUE \<le> exp (- (real_of_int dE / t)) \<longrightarrow>
                w = min (exp (- (real_of_int dE / t))) MAX_VALUE)
          \<and> (exp (- (real_of_int dE / t)) \<le> MIN_VALUE / 2 \<longrightarrow> w = 0)
          \<and> MRuleFn g lat (Fin t) r x y = (m, if dE \<le> 0 then r else snd (random r))
          \<and> MstarRuleFn g lat (Fin t) r x y = (mstar, if dE < 0 then r else snd (random r))
          \<and> (0 < dE \<longrightarrow> MstarRuleFn g lat (Fin t) r x y = MRuleFn g lat (Fin t) r x y)
          \<and> (dE \<le> 0 \<longrightarrow> MRuleFn g lat T r x y = (True, r))
          \<and> (dE < 0 \<longrightarrow> MstarRuleFn g lat T r x y = (True, r))
          \<and> updateSpin2 g ''M_rule'' (Fin t) (lat, r) x y
              = (if m then flipCell lat x y else lat, if dE \<le> 0 then r else snd (random r))
          \<and> updateSpin2 g ''M_star_rule'' (Fin t) (lat, r) x y
              = (if mstar then flipCell lat x y else lat, if dE < 0 then r else snd (random r))
          \<and> cell (flipCell lat x y) x y = - cell lat x y"
proof -
  note t = assms(4)
  have a: "(0 < calcDeltaE g lat x y \<longrightarrow>
            MstarRuleFn g lat (Fin t) r x y = MRuleFn g lat (Fin t) r x y)"
    by (auto simp: M_site[OF t] Mstar_site[OF t])
  have b: "calcDeltaE g lat x y \<le> 0 \<longrightarrow> MRuleFn g lat T r x y = (True, r)"
    by (simp add: MRuleFn_def Let_def)
  have c: "calcDeltaE g lat x y < 0 \<longrightarrow> MstarRuleFn g lat T r x y = (True, r)"
    by (simp add: MstarRuleFn_def Let_def)
  show ?thesis
    unfolding Let_def
    using boltzmann_clampedWeight[OF t, of "calcDeltaE g lat x y"]
      clampedWeight_formula[of "calcDeltaE g lat x y" t]
      clampedWeight_zero[of "calcDeltaE g lat x y" t]
      M_site[OF t, of g lat r x y] Mstar_site[OF t, of g lat r x y] a b c
      updateSpin2_M_site[OF t, of g lat r x y] updateSpin2_Mstar_site[OF t, of g lat r x y]
      cell_flipCell_same[OF assms(1,2,3)]
    by (intro conjI) blast+
qed

text \<open>
  Instances on the 3 by 3 torus. At the corner \<open>deltaE = 8\<close>: at temperature 1 the
  draw 0 flips and the draw 0.5 does not, and at temperature 0.01 the weight is 0
  and no draw flips. At the centre \<open>deltaE = -8\<close> and the flip is forced. On the
  striped torus \<open>deltaE = 0\<close> at the centre: the M-rule flips, the M*-rule flips
  with the coin.
\<close>

theorem acceptance_rules_witness:
  "MRuleFn 3 torus3 (Fin 1) (always 0) 0 0 = (True, always 0)
   \<and> MRuleFn 3 torus3 (Fin 1) (always (1 / 2)) 0 0 = (False, always (1 / 2))
   \<and> MRuleFn 3 torus3 (Fin (1 / 100)) (always 0) 0 0 = (False, always 0)
   \<and> boltzmann 8 (Fin (1 / 100)) = Fin 0
   \<and> MRuleFn 3 torus3 (Fin 1) (always (1 / 2)) 1 1 = (True, always (1 / 2))
   \<and> MRuleFn 3 stripe3 (Fin 1) (always (3 / 4)) 1 1 = (True, always (3 / 4))
   \<and> MstarRuleFn 3 stripe3 (Fin 1) (always (1 / 4)) 1 1 = (True, always (1 / 4))
   \<and> MstarRuleFn 3 stripe3 (Fin 1) (always (3 / 4)) 1 1 = (False, always (3 / 4))
   \<and> MstarRuleFn 3 torus3 (Fin 1) (always 0) 0 0 = (True, always 0)
   \<and> MstarRuleFn 3 torus3 (Fin 1) (always (1 / 2)) 0 0 = (False, always (1 / 2))
   \<and> updateSpin2 3 ''M_rule'' (Fin 1) (torus3, always 0) 0 0 = (flipCell torus3 0 0, always 0)
   \<and> updateSpin2 3 ''M_rule'' (Fin 1) (torus3, always (1 / 2)) 0 0 = (torus3, always (1 / 2))
   \<and> updateSpin2 3 ''M_star_rule'' (Fin 1) (stripe3, always (1 / 4)) 1 1
       = (flipCell stripe3 1 1, always (1 / 4))
   \<and> updateSpin2 3 ''M_star_rule'' (Fin 1) (stripe3, always (3 / 4)) 1 1
       = (stripe3, always (3 / 4))
   \<and> cell (flipCell torus3 0 0) 0 0 = - 1"
proof -
  have g: "square_grid 3 torus3" "square_grid 3 stripe3" "(0::nat) < 3" "(1::nat) < 3"
    "(0::real) < 1" "(0::real) < 1 / 100"
    by (simp_all add: square_grid_def torus3_def stripe3_def)
  have al: "always u 0 = u" for u :: real by (simp add: always_def)
  have cold: "exp (- (real_of_int 8 / (1 / 100))) \<le> MIN_VALUE / 2"
    using exp_800_underflows by simp
  note w = weight_8_1 weight_8_cold
  note corner = acceptance_rules[OF g(1) g(3) g(3) g(5), unfolded Let_def dE_torus3]
  note corner_cold = acceptance_rules[OF g(1) g(3) g(3) g(6), unfolded Let_def dE_torus3]
  note centre = acceptance_rules[OF g(1) g(4) g(4) g(5), unfolded Let_def dE_torus3]
  note stripe = acceptance_rules[OF g(2) g(4) g(4) g(5), unfolded Let_def dE_stripe3]
  have 1: "MRuleFn 3 torus3 (Fin 1) (always 0) 0 0 = (True, always 0)"
    using corner[of "always 0"] w by (simp add: al)
  have 2: "MRuleFn 3 torus3 (Fin 1) (always (1 / 2)) 0 0 = (False, always (1 / 2))"
    using corner[of "always (1 / 2)"] w by (simp add: al)
  have 3: "MRuleFn 3 torus3 (Fin (1 / 100)) (always 0) 0 0 = (False, always 0)"
    using corner_cold[of "always 0"] w by (simp add: al)
  have 4: "boltzmann 8 (Fin (1 / 100)) = Fin 0"
    using corner_cold[of "always 0"] cold by simp
  have 5: "MRuleFn 3 torus3 (Fin 1) (always (1 / 2)) 1 1 = (True, always (1 / 2))"
    using centre[of "always (1 / 2)"] by simp
  have 6: "MRuleFn 3 stripe3 (Fin 1) (always (3 / 4)) 1 1 = (True, always (3 / 4))"
    using stripe[of "always (3 / 4)"] by simp
  have 7: "MstarRuleFn 3 stripe3 (Fin 1) (always (1 / 4)) 1 1 = (True, always (1 / 4))"
    using stripe[of "always (1 / 4)"] by (simp add: al)
  have 8: "MstarRuleFn 3 stripe3 (Fin 1) (always (3 / 4)) 1 1 = (False, always (3 / 4))"
    using stripe[of "always (3 / 4)"] by (simp add: al)
  have 9: "MstarRuleFn 3 torus3 (Fin 1) (always 0) 0 0 = (True, always 0)"
    using corner[of "always 0"] w by (simp add: al)
  have 10: "MstarRuleFn 3 torus3 (Fin 1) (always (1 / 2)) 0 0 = (False, always (1 / 2))"
    using corner[of "always (1 / 2)"] w by (simp add: al)
  have 11: "updateSpin2 3 ''M_rule'' (Fin 1) (torus3, always 0) 0 0
              = (flipCell torus3 0 0, always 0)"
    using corner[of "always 0"] w by (simp add: al)
  have 12: "updateSpin2 3 ''M_rule'' (Fin 1) (torus3, always (1 / 2)) 0 0
              = (torus3, always (1 / 2))"
    using corner[of "always (1 / 2)"] w by (simp add: al)
  have 13: "updateSpin2 3 ''M_star_rule'' (Fin 1) (stripe3, always (1 / 4)) 1 1
       = (flipCell stripe3 1 1, always (1 / 4))"
    using stripe[of "always (1 / 4)"] by (simp add: al)
  have 14: "updateSpin2 3 ''M_star_rule'' (Fin 1) (stripe3, always (3 / 4)) 1 1
       = (stripe3, always (3 / 4))"
    using stripe[of "always (3 / 4)"] by (simp add: al)
  have 15: "cell (flipCell torus3 0 0) 0 0 = - 1"
    using corner[of "always 0"] by (simp add: cell_def torus3_def)
  show ?thesis using 1 2 3 4 5 6 7 8 9 10 11 12 13 14 15 by (intro conjI)
qed


section \<open>The values of the energy change (claim C5)\<close>

text \<open>
  C5, as the code has it. \<open>calcDeltaE\<close> is twice the spin times the sum of the four
  neighbour cells. On a torus whose cells are all spins the value lies in
  \<open>{-8, -4, 0, 4, 8}\<close>. On a haloed lattice a border cell may hold the neutral 0, and
  the value at an interior cell is an even integer from \<open>-8\<close> to \<open>8\<close>; it lies in
  \<open>{-8, -4, 0, 4, 8}\<close> when none of the four neighbours is neutral.
\<close>

theorem calcDeltaE_value_set:
  "calcDeltaE g lat x y =
     2 * cell lat x y *
       (cell lat x (if y > 0 then y - 1 else g - 1) + cell lat x (if y < g - 1 then y + 1 else 0)
        + cell lat (if x > 0 then x - 1 else g - 1) y
        + cell lat (if x < g - 1 then x + 1 else 0) y)
   \<and> calcDeltaE_halo lat x y =
     2 * cell lat x y *
       (cell lat x (y - 1) + cell lat x (y + 1) + cell lat (x + 1) y + cell lat (x - 1) y)
   \<and> (square_grid g lat \<and> all_spins lat \<and> x < g \<and> y < g \<longrightarrow>
        calcDeltaE g lat x y \<in> {- 8, - 4, 0, 4, 8})
   \<and> (halo_spins g lat \<and> interior g x y \<longrightarrow>
        calcDeltaE_halo lat x y \<in> {- 8, - 6, - 4, - 2, 0, 2, 4, 6, 8})
   \<and> (halo_spins g lat \<and> interior g x y \<and> cell lat x (y - 1) \<noteq> 0 \<and> cell lat x (y + 1) \<noteq> 0
        \<and> cell lat (x + 1) y \<noteq> 0 \<and> cell lat (x - 1) y \<noteq> 0 \<longrightarrow>
        calcDeltaE_halo lat x y \<in> {- 8, - 4, 0, 4, 8})"
proof (intro conjI impI)
  show "calcDeltaE g lat x y =
     2 * cell lat x y *
       (cell lat x (if y > 0 then y - 1 else g - 1) + cell lat x (if y < g - 1 then y + 1 else 0)
        + cell lat (if x > 0 then x - 1 else g - 1) y
        + cell lat (if x < g - 1 then x + 1 else 0) y)"
    by (simp add: calcDeltaE_def Let_def)
  show "calcDeltaE_halo lat x y =
     2 * cell lat x y *
       (cell lat x (y - 1) + cell lat x (y + 1) + cell lat (x + 1) y + cell lat (x - 1) y)"
    by (simp add: calcDeltaE_halo_def Let_def)
next
  assume "square_grid g lat \<and> all_spins lat \<and> x < g \<and> y < g"
  then show "calcDeltaE g lat x y \<in> {- 8, - 4, 0, 4, 8}"
    using calcDeltaE_torus_values by blast
next
  assume "halo_spins g lat \<and> interior g x y"
  then show "calcDeltaE_halo lat x y \<in> {- 8, - 6, - 4, - 2, 0, 2, 4, 6, 8}"
    using calcDeltaE_halo_values by blast
next
  assume a: "halo_spins g lat \<and> interior g x y \<and> cell lat x (y - 1) \<noteq> 0
        \<and> cell lat x (y + 1) \<noteq> 0 \<and> cell lat (x + 1) y \<noteq> 0 \<and> cell lat (x - 1) y \<noteq> 0"
  then have b: "x - 1 < g" "x + 1 < g" "y - 1 < g" "y + 1 < g" "x < g" "y < g"
    by (auto simp: interior_def)
  have c: "cell lat x y = 1 \<or> cell lat x y = - 1" using a halo_spins_interior by blast
  have n: "cell lat x (y - 1) = 1 \<or> cell lat x (y - 1) = - 1"
    using a halo_spins_any[of g lat x "y - 1"] b by auto
  have s: "cell lat x (y + 1) = 1 \<or> cell lat x (y + 1) = - 1"
    using a halo_spins_any[of g lat x "y + 1"] b by auto
  have e: "cell lat (x + 1) y = 1 \<or> cell lat (x + 1) y = - 1"
    using a halo_spins_any[of g lat "x + 1" y] b by auto
  have w: "cell lat (x - 1) y = 1 \<or> cell lat (x - 1) y = - 1"
    using a halo_spins_any[of g lat "x - 1" y] b by auto
  show "calcDeltaE_halo lat x y \<in> {- 8, - 4, 0, 4, 8}"
    unfolding calcDeltaE_halo_def Let_def by (rule spin_prod_cases[OF c n s e w])
qed

theorem calcDeltaE_value_set_witness:
  "calcDeltaE 3 torus3 1 1 \<in> {- 8, - 4, 0, 4, 8}
   \<and> calcDeltaE_halo zeroBorder5 1 2 \<in> {- 8, - 6, - 4, - 2, 0, 2, 4, 6, 8}
   \<and> calcDeltaE_halo upBorder5 1 2 \<in> {- 8, - 4, 0, 4, 8}"
proof -
  have t: "square_grid 3 torus3 \<and> all_spins torus3 \<and> (1::nat) < 3 \<and> (1::nat) < 3"
    by (simp add: square_grid_def all_spins_def torus3_def)
  have z: "halo_spins 5 zeroBorder5 \<and> interior 5 1 2"
    by code_simp
  have u: "halo_spins 5 upBorder5 \<and> interior 5 1 2
      \<and> cell upBorder5 1 (2 - 1) \<noteq> 0 \<and> cell upBorder5 1 (2 + 1) \<noteq> 0
      \<and> cell upBorder5 (1 + 1) 2 \<noteq> 0 \<and> cell upBorder5 (1 - 1) 2 \<noteq> 0"
    by code_simp
  note T = calcDeltaE_value_set[of 3 torus3 1 1]
  note Z = calcDeltaE_value_set[of 5 zeroBorder5 1 2]
  note U = calcDeltaE_value_set[of 5 upBorder5 1 2]
  have "calcDeltaE 3 torus3 1 1 \<in> {- 8, - 4, 0, 4, 8}"
    by (rule mp[OF T[THEN conjunct2, THEN conjunct2, THEN conjunct1] t])
  moreover have "calcDeltaE_halo zeroBorder5 1 2 \<in> {- 8, - 6, - 4, - 2, 0, 2, 4, 6, 8}"
    by (rule mp[OF Z[THEN conjunct2, THEN conjunct2, THEN conjunct2, THEN conjunct1] z])
  moreover have "calcDeltaE_halo upBorder5 1 2 \<in> {- 8, - 4, 0, 4, 8}"
    by (rule mp[OF U[THEN conjunct2, THEN conjunct2, THEN conjunct2, THEN conjunct2] u])
  ultimately show ?thesis by (intro conjI)
qed

theorem calcDeltaE_zero_border_counterexample:
  "map_sum id fst (init4 5 ''zero'' (replicate 5 (replicate 5 0), always 0)) = Inr zeroBorder5
   \<and> interior 5 1 2
   \<and> calcDeltaE_halo zeroBorder5 1 2 = 6
   \<and> calcDeltaE_halo zeroBorder5 1 2 \<notin> {- 8, - 4, 0, 4, 8}"
proof -
  have a: "map_sum id fst (init4 5 ''zero'' (replicate 5 (replicate 5 0), always 0)) = Inr zeroBorder5"
    by code_simp
  have b: "interior 5 1 2" by code_simp
  have c: "calcDeltaE_halo zeroBorder5 1 2 = 6" by code_simp
  show ?thesis unfolding c using a b by simp
qed


section \<open>The clamped Boltzmann weight (claim C6)\<close>

lemma dE_wrap4: "calcDeltaE_halo wrap4 1 1 = - 8"
  by (simp add: calcDeltaE_halo_def cell_def wrap4_def)

lemma draws_half: "randomIndex 3 (always (1 / 2)) = (1, always (1 / 2))"
  by (simp add: randomIndex_def)

lemma draws_zero: "randomSource 4 (always 0) = (1, always 0)"
  by (simp add: randomSource_def activeSize_def)


text \<open>
  C6. At a positive temperature \<open>t\<close> the weight
  \<open>Math.min(Math.exp(-deltaE/temperature), Number.MAX_VALUE)\<close> is the finite number
  \<open>clampedWeight deltaE t\<close> between 0 and \<open>MAX_VALUE\<close>: the minimum of \<open>exp(-deltaE / t)\<close>
  and \<open>MAX_VALUE\<close> whenever the exponential does not underflow. The quotient
  \<open>w / (1 + w)\<close> of the G-rule is the finite number \<open>gRatio deltaE t\<close> between 0 and
  1. Every acceptance decision of the five programs compares the draw with one of
  these two numbers: \<open>runMetro\<close> and \<open>runGlauber\<close> of program 1, the three rules of
  \<open>updateSpin\<close> of program 2, \<open>updateSpin\<close> (the code of \<open>runMetro\<close> of program 1)
  and \<open>runMetro_simultaneous\<close> of program 3, \<open>runMetro\<close> and \<open>runGlauber\<close> of
  program 4, and the three acceptor functions of program 5.
\<close>

theorem boltzmann_weight_finite:
  assumes "0 < t"
  shows "boltzmann d (Fin t) = Fin (clampedWeight d t)
     \<and> 0 \<le> clampedWeight d t \<and> clampedWeight d t \<le> MAX_VALUE
     \<and> (MIN_VALUE \<le> exp (- (real_of_int d / t)) \<longrightarrow>
          clampedWeight d t = min (exp (- (real_of_int d / t))) MAX_VALUE)
     \<and> js_div (boltzmann d (Fin t)) (js_add (Fin 1) (boltzmann d (Fin t))) = Fin (gRatio d t)
     \<and> 0 \<le> gRatio d t \<and> gRatio d t \<le> 1
     \<and> metroStep1 g (Fin t) (lat, r) (x, y)
         = (if calcDeltaE g lat x y \<le> 0 \<or> r 0 < clampedWeight (calcDeltaE g lat x y) t
            then flipCell lat x y else lat,
            if calcDeltaE g lat x y \<le> 0 then r else snd (random r))
     \<and> glauberStep1 g (Fin t) (lat, r)
         = (let (x, r1) = randomIndex g r; (y, r2) = randomIndex g r1; (u, r3) = random r2
            in (if u < gRatio (calcDeltaE g lat x y) t then flipCell lat x y else lat, r3))
     \<and> updateSpin2 g ''M_rule'' (Fin t) (lat, r) x y
         = (if calcDeltaE g lat x y \<le> 0 \<or> r 0 < clampedWeight (calcDeltaE g lat x y) t
            then flipCell lat x y else lat,
            if calcDeltaE g lat x y \<le> 0 then r else snd (random r))
     \<and> updateSpin2 g ''G_rule'' (Fin t) (lat, r) x y
         = (if r 0 < gRatio (calcDeltaE g lat x y) t then flipCell lat x y else lat,
            snd (random r))
     \<and> updateSpin2 g ''M_star_rule'' (Fin t) (lat, r) x y
         = (if calcDeltaE g lat x y < 0 \<or> (calcDeltaE g lat x y = 0 \<and> r 0 < 1 / 2)
                \<or> (0 < calcDeltaE g lat x y \<and> r 0 < clampedWeight (calcDeltaE g lat x y) t)
            then flipCell lat x y else lat,
            if calcDeltaE g lat x y < 0 then r else snd (random r))
     \<and> simultaneousStep g (Fin t) (lat, sh, r) (x, y)
         = (lat,
            if calcDeltaE g lat x y \<le> 0 \<or> r 0 < clampedWeight (calcDeltaE g lat x y) t
            then flipCell (setCell sh x y (cell lat x y)) x y else setCell sh x y (cell lat x y),
            if calcDeltaE g lat x y \<le> 0 then r else snd (random r))
     \<and> metroMicrostep g rule (Fin t) (lat, r) (x, y)
         = (if calcDeltaE_halo lat x y \<le> 0 \<or> r 0 < clampedWeight (calcDeltaE_halo lat x y) t
            then updateBorderMicrostep g rule (flipCell lat x y) x y else lat,
            if calcDeltaE_halo lat x y \<le> 0 then r else snd (random r))
     \<and> glauberMicrostep g rule (Fin t) (lat, r)
         = (let (x, r1) = randomSource g r; (y, r2) = randomSource g r1; (u, r3) = random r2
            in (if u < gRatio (calcDeltaE_halo lat x y) t
                then updateBorderMicrostep g rule (flipCell lat x y) x y else lat, r3))
     \<and> MRuleFn g lat (Fin t) r x y
         = (calcDeltaE g lat x y \<le> 0 \<or> r 0 < clampedWeight (calcDeltaE g lat x y) t,
            if calcDeltaE g lat x y \<le> 0 then r else snd (random r))
     \<and> GRuleFn g lat (Fin t) r x y = (r 0 < gRatio (calcDeltaE g lat x y) t, snd (random r))
     \<and> MstarRuleFn g lat (Fin t) r x y
         = (calcDeltaE g lat x y < 0 \<or> (calcDeltaE g lat x y = 0 \<and> r 0 < 1 / 2)
              \<or> (0 < calcDeltaE g lat x y \<and> r 0 < clampedWeight (calcDeltaE g lat x y) t),
            if calcDeltaE g lat x y < 0 then r else snd (random r))"
proof -
  note t = assms
  have b: "boltzmann d (Fin t) = Fin (clampedWeight d t)" by (rule boltzmann_clampedWeight[OF t])
  have f: "MIN_VALUE \<le> exp (- (real_of_int d / t)) \<longrightarrow>
          clampedWeight d t = min (exp (- (real_of_int d / t))) MAX_VALUE"
    using clampedWeight_formula[of d t] by blast
  have q: "js_div (boltzmann d (Fin t)) (js_add (Fin 1) (boltzmann d (Fin t))) = Fin (gRatio d t)"
    unfolding b by (rule gRatio_eq)
  show ?thesis
    by (intro conjI b f q conjunct1[OF clampedWeight_range] conjunct2[OF clampedWeight_range]
        conjunct1[OF gRatio_range] conjunct2[OF gRatio_range]
        metroStep1_site[OF t] glauberStep1_site[OF t] updateSpin2_M_site[OF t]
        updateSpin2_G_site[OF t] updateSpin2_Mstar_site[OF t] simultaneousStep_site[OF t]
        metroMicrostep_site[OF t] glauberMicrostep_site[OF t] M_site[OF t] G_site[OF t]
        Mstar_site[OF t])
qed

text \<open>
  Instances at temperature 0.001 and \<open>deltaE = -8\<close>, where the exponential is
  \<open>Infinity\<close>: the weight is \<open>MAX_VALUE\<close>, the quotient of the G-rule is 1 and
  the draw 0.5 flips under the G-rule in programs 1, 2, 4 and 5. At temperature
  1 and \<open>deltaE = 8\<close> the weight is \<open>exp(-8)\<close> and the draw 0.5 does not flip.
\<close>

theorem boltzmann_weight_finite_witness:
  "js_exp (js_div (js_neg (Fin (of_int (- 8)))) (Fin (1 / 1000))) = PosInf
   \<and> boltzmann (- 8) (Fin (1 / 1000)) = Fin MAX_VALUE
   \<and> js_div (boltzmann (- 8) (Fin (1 / 1000))) (js_add (Fin 1) (boltzmann (- 8) (Fin (1 / 1000))))
       = Fin 1
   \<and> GRuleFn 3 torus3 (Fin (1 / 1000)) (always (1 / 2)) 1 1 = (True, always (1 / 2))
   \<and> updateSpin2 3 ''G_rule'' (Fin (1 / 1000)) (torus3, always (1 / 2)) 1 1
       = (flipCell torus3 1 1, always (1 / 2))
   \<and> glauberStep1 3 (Fin (1 / 1000)) (torus3, always (1 / 2))
       = (flipCell torus3 1 1, always (1 / 2))
   \<and> glauberMicrostep 4 ''wraparound'' (Fin (1 / 1000)) (wrap4, always 0)
       = (updateBorderMicrostep 4 ''wraparound'' (flipCell wrap4 1 1) 1 1, always 0)
   \<and> metroStep1 3 (Fin (1 / 1000)) (torus3, always (1 / 2)) (1, 1)
       = (flipCell torus3 1 1, always (1 / 2))
   \<and> boltzmann 8 (Fin 1) = Fin (exp (- 8))
   \<and> metroStep1 3 (Fin 1) (torus3, always (1 / 2)) (0, 0) = (torus3, always (1 / 2))"
proof -
  have t: "(0::real) < 1 / 1000" "(0::real) < 1" by simp_all
  have al: "always u 0 = u" for u :: real by (simp add: always_def)
  have big: "MIN_VALUE \<le> exp (- (real_of_int (- 8) / (1 / 1000)))"
    using exp_8000_big MAX_lt_threshold MIN_le_MAX by simp
  have small: "MIN_VALUE \<le> exp (- (real_of_int 8 / 1))"
    using exp_neg8_bounds(1) by simp
  have m: "min (exp (- 8)) MAX_VALUE = exp (- 8 :: real)"
    using exp_neg8_bounds(2) MAX_VALUE_ge_1 by simp
  note hot = boltzmann_weight_finite[where t = "1 / 1000" and d = "- 8", OF t(1),
      unfolded weight_hot]
  note hot3 = boltzmann_weight_finite[where t = "1 / 1000" and g = 3 and lat = torus3
      and r = "always (1 / 2)" and x = 1 and y = 1, OF t(1), unfolded dE_torus3 weight_hot]
  note hot4 = boltzmann_weight_finite[where t = "1 / 1000" and g = 4 and lat = wrap4
      and r = "always 0" and x = 1 and y = 1 and rule = "''wraparound''", OF t(1),
      unfolded dE_wrap4 weight_hot]
  note mild = boltzmann_weight_finite[where t = 1 and d = 8 and g = 3 and lat = torus3
      and r = "always (1 / 2)" and x = 0 and y = 0, OF t(2), unfolded dE_torus3]
  have 1: "boltzmann (- 8) (Fin (1 / 1000)) = Fin MAX_VALUE" using hot by simp
  have 2: "js_div (boltzmann (- 8) (Fin (1 / 1000)))
             (js_add (Fin 1) (boltzmann (- 8) (Fin (1 / 1000)))) = Fin 1"
    using hot by blast
  have 3: "GRuleFn 3 torus3 (Fin (1 / 1000)) (always (1 / 2)) 1 1 = (True, always (1 / 2))"
    using hot3 by (simp add: al)
  have 4: "updateSpin2 3 ''G_rule'' (Fin (1 / 1000)) (torus3, always (1 / 2)) 1 1
       = (flipCell torus3 1 1, always (1 / 2))"
    using hot3 by (simp add: al)
  have 5: "glauberStep1 3 (Fin (1 / 1000)) (torus3, always (1 / 2))
       = (flipCell torus3 1 1, always (1 / 2))"
  proof -
    have e: "glauberStep1 3 (Fin (1 / 1000)) (torus3, always (1 / 2))
         = (let (x, r1) = randomIndex 3 (always (1 / 2)); (y, r2) = randomIndex 3 r1;
                (u, r3) = random r2
            in (if u < gRatio (calcDeltaE 3 torus3 x y) (1 / 1000) then flipCell torus3 x y
                else torus3, r3))"
      using hot3 by blast
    show ?thesis
      unfolding e draws_half Let_def prod.case random_always dE_torus3 weight_hot by simp
  qed
  have 6: "glauberMicrostep 4 ''wraparound'' (Fin (1 / 1000)) (wrap4, always 0)
       = (updateBorderMicrostep 4 ''wraparound'' (flipCell wrap4 1 1) 1 1, always 0)"
  proof -
    have e: "glauberMicrostep 4 ''wraparound'' (Fin (1 / 1000)) (wrap4, always 0)
         = (let (x, r1) = randomSource 4 (always 0); (y, r2) = randomSource 4 r1;
                (u, r3) = random r2
            in (if u < gRatio (calcDeltaE_halo wrap4 x y) (1 / 1000)
                then updateBorderMicrostep 4 ''wraparound'' (flipCell wrap4 x y) x y
                else wrap4, r3))"
      using hot4 by blast
    show ?thesis
      unfolding e draws_zero Let_def prod.case random_always dE_wrap4 weight_hot by simp
  qed
  have 7: "metroStep1 3 (Fin (1 / 1000)) (torus3, always (1 / 2)) (1, 1)
       = (flipCell torus3 1 1, always (1 / 2))"
    using hot3 by simp
  have 8: "boltzmann 8 (Fin 1) = Fin (exp (- 8))"
    using mild small m by simp
  have 9: "metroStep1 3 (Fin 1) (torus3, always (1 / 2)) (0, 0) = (torus3, always (1 / 2))"
    using mild weight_8_1 by (simp add: al)
  show ?thesis using clamp_needed 1 2 3 4 5 6 7 8 9 by (intro conjI)
qed



section \<open>The wraparound border after a flip (claim C2)\<close>

lemma wraparound_synced_corner:
  assumes "wraparound_synced g lat" "4 \<le> g"
  shows "cell lat 1 (g - 1) = cell lat 1 1"
proof -
  have "(1::nat) \<in> set [activeLeft..<activeRight g + 1]"
    using assms(2) by (auto simp: activeRight_def gridRight_def gridSide_def)
  then show ?thesis
    using assms(1) unfolding wraparound_synced_def list_all_iff
    by (auto simp: gridBottom_def gridSide_def)
qed

lemma corner_microstep:
  assumes sq: "square_grid g lat" and g: "4 \<le> g"
  shows "updateBorderMicrostep g ''wraparound'' (flipCell lat 1 1) 1 1
          = setCell (flipCell lat 1 1) (g - 1) 1 (- cell lat 1 1)"
  using cell_flipCell_same[OF sq, of 1 1] g
  by (simp add: updateBorderMicrostep_def gridRight_def gridSide_def)

text \<open>
  C2 fails at the interior corners. Take a haloed lattice of side at least 4 whose
  wraparound border is in step with the interior, and let a microstep of \<open>runMetro\<close>
  commit a flip of the interior corner cell (1, 1). That cell lies on the left edge
  and on the top edge, so two border cells mirror it. The else-if chain of
  \<open>updateBorderMicrostep\<close> refreshes the one on the right border and stops: the one
  on the bottom border keeps the old spin, and the border is no longer in step when
  the next microstep reads the lattice.
\<close>

theorem wraparound_corner_flip_not_synced:
  assumes sq: "square_grid g lat" and g: "4 \<le> g"
    and synced: "wraparound_synced g lat"
    and spin: "cell lat 1 1 = 1 \<or> cell lat 1 1 = - 1"
    and committed: "cell (fst (metroMicrostep g ''wraparound'' T (lat, r) (1, 1))) 1 1 \<noteq> cell lat 1 1"
  shows "let lat' = fst (metroMicrostep g ''wraparound'' T (lat, r) (1, 1))
         in cell lat' 1 1 = - cell lat 1 1
          \<and> cell lat' (gridRight g) 1 = cell lat' 1 1
          \<and> cell lat' 1 (gridBottom g) = cell lat 1 1
          \<and> cell lat' 1 (gridBottom g) \<noteq> cell lat' 1 activeTop
          \<and> \<not> wraparound_synced g lat'"
proof -
  define lat' where "lat' = fst (metroMicrostep g ''wraparound'' T (lat, r) (1, 1))"
  have cases: "lat' = lat \<or> lat' = updateBorderMicrostep g ''wraparound'' (flipCell lat 1 1) 1 1"
    unfolding lat'_def metroMicrostep_def by (simp add: Let_def split: prod.splits)
  have "lat' \<noteq> lat" using committed unfolding lat'_def by auto
  with cases have eq: "lat' = setCell (flipCell lat 1 1) (g - 1) 1 (- cell lat 1 1)"
    using corner_microstep[OF sq g] by simp
  have a: "cell lat' 1 1 = - cell lat 1 1"
    using g by (simp add: eq cell_setCell_other cell_flipCell_same[OF sq])
  have b: "cell lat' (g - 1) 1 = - cell lat 1 1"
    using g sq by (simp add: eq cell_setCell_same)
  have "cell lat' 1 (g - 1) = cell lat 1 (g - 1)"
    using g by (simp add: eq cell_setCell_other cell_flipCell_other)
  also have "\<dots> = cell lat 1 1"
    by (rule wraparound_synced_corner[OF synced g])
  finally have c: "cell lat' 1 (g - 1) = cell lat 1 1" .
  have d: "cell lat' 1 (g - 1) \<noteq> cell lat' 1 1" using a c spin by auto
  have e: "\<not> wraparound_synced g lat'"
    using d wraparound_synced_corner[OF _ g, of lat'] by blast
  show ?thesis
    unfolding lat'_def[symmetric] Let_def using a b c d e
    by (simp add: gridRight_def gridBottom_def gridSide_def)
qed

theorem wraparound_corner_flip_not_synced_witness:
  "map_sum id fst (init4 4 ''wraparound'' (replicate 4 (replicate 4 0), (always 0)(0 := 3 / 4)))
     = Inr wrap4
   \<and> wraparound_synced 4 wrap4
   \<and> fst (metroMicrostep 4 ''wraparound'' (Fin 1) (wrap4, always 0) (1, 1))
       = [[0, 1, 1, 0], [1, 1, 1, - 1], [1, 1, 1, 1], [0, 1, 1, 0]]
   \<and> \<not> wraparound_synced 4 (fst (metroMicrostep 4 ''wraparound'' (Fin 1) (wrap4, always 0) (1, 1)))"
proof -
  have i: "map_sum id fst (init4 4 ''wraparound'' (replicate 4 (replicate 4 0), (always 0)(0 := 3 / 4)))
     = Inr wrap4" by code_simp
  have sq: "square_grid 4 wrap4" by code_simp
  have g: "(4::nat) \<le> 4" by simp
  have synced: "wraparound_synced 4 wrap4" by code_simp
  have spin: "cell wrap4 1 1 = 1 \<or> cell wrap4 1 1 = - 1" by code_simp
  have dE: "calcDeltaE_halo wrap4 1 1 = - 8" by code_simp
  have m: "fst (metroMicrostep 4 ''wraparound'' (Fin 1) (wrap4, always 0) (1, 1))
       = [[0, 1, 1, 0], [1, 1, 1, - 1], [1, 1, 1, 1], [0, 1, 1, 0]]"
    unfolding metroMicrostep_def Let_def prod.case dE
    by (simp add: updateBorderMicrostep_def flipCell_def setCell_def cell_def wrap4_def
        gridRight_def gridSide_def)
  have committed: "cell (fst (metroMicrostep 4 ''wraparound'' (Fin 1) (wrap4, always 0) (1, 1))) 1 1
      \<noteq> cell wrap4 1 1"
    unfolding m by code_simp
  from wraparound_corner_flip_not_synced[OF sq g synced spin committed]
  show ?thesis using i synced m by (simp add: Let_def)
qed



section \<open>The simultaneous sweep (claim C4)\<close>















lemma typewriterGen_swap:
  "typewriterGen g 0 0 = map (\<lambda>(y, x). (x, y)) (List.product [0..<g] [0..<g])"
  by (simp add: typewriterGen_def product_concat_map map_concat comp_def)

lemma typewriterGen_set: "set (typewriterGen g 0 0) = {0..<g} \<times> {0..<g}"
  by (auto simp: typewriterGen_swap)

lemma typewriterGen_distinct: "distinct (typewriterGen g 0 0)"
  unfolding typewriterGen_swap
  by (rule iffD2[OF distinct_map]) (auto simp: distinct_product inj_on_def)

lemma typewriterGen_length: "length (typewriterGen g 0 0) = g * g"
  by (simp add: typewriterGen_swap)














section \<open>The standard deviation of the harness (claim C8)\<close>

lemma overflow_representable: "representable (overflow r)"
  using MAX_VALUE_pos by (auto simp: overflow_def)

lemma js_div_representable: "representable (js_div a b)"
  using MAX_VALUE_pos by (cases a; cases b) (auto simp: overflow_representable)

lemma seriesStats_single:
  assumes "representable x"
  shows "\<exists>m. seriesStats [x] 1 = Inr (m, NaN)"
proof -
  define mean where "mean = js_div (foldl js_add (Fin 0) [x]) (Fin (real (1::nat)))"
  have sq: "square (js_sub x mean) = Fin 0 \<or> square (js_sub x mean) = NaN"
  proof (cases x)
    case (Fin a)
    then have a: "\<bar>a\<bar> \<le> MAX_VALUE" using assms by simp
    have "mean = Fin a" using a by (simp add: mean_def Fin overflow_in_range)
    then have "js_sub x mean = Fin 0"
      using MAX_VALUE_pos by (simp add: Fin js_sub_def overflow_in_range)
    then show ?thesis using MAX_VALUE_pos by (simp add: square_def overflow_in_range)
  qed (simp_all add: mean_def square_def js_sub_def)
  have "js_sqrt (js_div (square (js_sub x mean)) (Fin (real (1::nat) - 1))) = NaN"
    using sq by auto
  then show ?thesis
    unfolding seriesStats_def Let_def mean_def[symmetric] by (simp add: reduce_add_def)
qed

lemma recordSweep1_lengths:
  "recordSweep1 g fn j (s, Es, Rs, Ms) = (s', Es', Rs', Ms') \<Longrightarrow>
   length Es' = length Es \<and> length Rs' = length Rs \<and> length Ms' = length Ms"
  by (auto simp: recordSweep1_def Let_def)

lemma record_loop_lengths:
  "fold (recordSweep1 g fn) js (s, Es, Rs, Ms) = (s', Es', Rs', Ms') \<Longrightarrow>
   length Es' = length Es \<and> length Rs' = length Rs \<and> length Ms' = length Ms"
proof (induction js arbitrary: s Es Rs Ms)
  case Nil
  then show ?case by simp
next
  case (Cons j js)
  obtain s1 Es1 Rs1 Ms1 where st: "recordSweep1 g fn j (s, Es, Rs, Ms) = (s1, Es1, Rs1, Ms1)"
    by (cases "recordSweep1 g fn j (s, Es, Rs, Ms)") auto
  from Cons.prems have "fold (recordSweep1 g fn) js (s1, Es1, Rs1, Ms1) = (s', Es', Rs', Ms')"
    by (simp add: st)
  from Cons.IH[OF this] recordSweep1_lengths[OF st] show ?case by simp
qed

lemma reps_loop_lengths:
  "fold (\<lambda>i (s', acc). fold (recordSweep1 g fn) js (pre s', acc)) is (s, Es, Rs, Ms)
     = (s', Es', Rs', Ms') \<Longrightarrow>
   length Es' = length Es \<and> length Rs' = length Rs \<and> length Ms' = length Ms"
proof (induction "is" arbitrary: s Es Rs Ms)
  case Nil
  then show ?case by simp
next
  case (Cons i "is")
  obtain s1 Es1 Rs1 Ms1 where
    st: "fold (recordSweep1 g fn) js (pre s, Es, Rs, Ms) = (s1, Es1, Rs1, Ms1)"
    by (cases "fold (recordSweep1 g fn) js (pre s, Es, Rs, Ms)") auto
  from Cons.prems have "fold (\<lambda>i (s', acc). fold (recordSweep1 g fn) js (pre s', acc)) is
      (s1, Es1, Rs1, Ms1) = (s', Es', Rs', Ms')"
    by (simp add: st)
  from Cons.IH[OF this] record_loop_lengths[OF st] show ?case by simp
qed

lemma equilibriumProperties_unfold:
  "\<exists>s1 Es Rs Ms.
    length Es = steps \<and> length Rs = steps \<and> length Ms = steps \<and>
    equilibriumProperties g algo initState T burnin steps reps s =
       (if steps = 0 then Inl TypeError
        else case seriesStats (map (\<lambda>x. js_div x (Fin (real reps))) Rs) steps of
                Inl e \<Rightarrow> Inl e
              | Inr (Rm, Rs') \<Rightarrow>
                  (case seriesStats (map (\<lambda>x. js_div x (Fin (real reps))) Ms) steps of
                     Inl e \<Rightarrow> Inl e
                   | Inr (Mm, Ms') \<Rightarrow>
                       Inr (\<lparr>R_mean = Rm, R_sdev = Rs', M_mean = Mm, M_sdev = Ms'\<rparr>,
                            map (\<lambda>x. js_div x (Fin (real reps))) Es,
                            map (\<lambda>x. js_div x (Fin (real reps))) Rs,
                            map (\<lambda>x. js_div x (Fin (real reps))) Ms, s1)))"
proof -
  define fn where "fn = (if algo = ''metro'' then runMetro1 g else runGlauber1 g)"
  define pre where "pre = (\<lambda>s'. (fn ^^ burnin) (init1 g initState s'))"
  obtain s1 Es Rs Ms where
    f: "fold (\<lambda>i (s', acc). fold (recordSweep1 g fn) [0..<steps] (pre s', acc)) [0..<reps]
          (s\<lparr>p1_temperature := T\<rparr>, replicate steps (Fin 0), replicate steps (Fin 0),
           replicate steps (Fin 0)) = (s1, Es, Rs, Ms)"
    by (metis prod_cases4)
  have l: "length Es = steps" "length Rs = steps" "length Ms = steps"
    using reps_loop_lengths[OF f] by simp_all
  have e: "(Es = []) = (steps = 0)" using l by auto
  have "equilibriumProperties g algo initState T burnin steps reps s =
       (if steps = 0 then Inl TypeError
        else case seriesStats (map (\<lambda>x. js_div x (Fin (real reps))) Rs) steps of
                Inl e \<Rightarrow> Inl e
              | Inr (Rm, Rs') \<Rightarrow>
                  (case seriesStats (map (\<lambda>x. js_div x (Fin (real reps))) Ms) steps of
                     Inl e \<Rightarrow> Inl e
                   | Inr (Mm, Ms') \<Rightarrow>
                       Inr (\<lparr>R_mean = Rm, R_sdev = Rs', M_mean = Mm, M_sdev = Ms'\<rparr>,
                            map (\<lambda>x. js_div x (Fin (real reps))) Es,
                            map (\<lambda>x. js_div x (Fin (real reps))) Rs,
                            map (\<lambda>x. js_div x (Fin (real reps))) Ms, s1)))"
    by (simp add: equilibriumProperties_def Let_def fn_def[symmetric] f[unfolded pre_def] e)
  then show ?thesis using l by blast
qed

lemma equilibrium_no_sweep:
  "equilibriumProperties g algo initState T burnin 0 reps s = Inl TypeError"
  using equilibriumProperties_unfold[of 0 g algo initState T burnin reps s] by auto

lemma equilibrium_single_sweep:
  "\<exists>res Es Rs Ms s'. equilibriumProperties g algo initState T burnin 1 reps s
      = Inr (res, Es, Rs, Ms, s') \<and> R_sdev res = NaN \<and> M_sdev res = NaN"
proof -
  obtain s1 Es Rs Ms where l: "length Es = 1" "length Rs = 1" "length Ms = 1"
    and e: "equilibriumProperties g algo initState T burnin 1 reps s =
       (if (1::nat) = 0 then Inl TypeError
        else case seriesStats (map (\<lambda>x. js_div x (Fin (real reps))) Rs) 1 of
                Inl e \<Rightarrow> Inl e
              | Inr (Rm, Rs') \<Rightarrow>
                  (case seriesStats (map (\<lambda>x. js_div x (Fin (real reps))) Ms) 1 of
                     Inl e \<Rightarrow> Inl e
                   | Inr (Mm, Ms') \<Rightarrow>
                       Inr (\<lparr>R_mean = Rm, R_sdev = Rs', M_mean = Mm, M_sdev = Ms'\<rparr>,
                            map (\<lambda>x. js_div x (Fin (real reps))) Es,
                            map (\<lambda>x. js_div x (Fin (real reps))) Rs,
                            map (\<lambda>x. js_div x (Fin (real reps))) Ms, s1)))"
    using equilibriumProperties_unfold[of 1 g algo initState T burnin reps s] by blast
  obtain r where r: "Rs = [r]" using l(2) by (cases Rs) auto
  obtain m where m: "Ms = [m]" using l(3) by (cases Ms) auto
  obtain rm where rm: "seriesStats [js_div r (Fin (real reps))] 1 = Inr (rm, NaN)"
    using seriesStats_single[OF js_div_representable] by blast
  obtain mm where mm: "seriesStats [js_div m (Fin (real reps))] 1 = Inr (mm, NaN)"
    using seriesStats_single[OF js_div_representable] by blast
  show ?thesis using e r m rm mm by simp
qed

lemma MAX_VALUE_ge_8: "8 \<le> MAX_VALUE"
proof -
  have "(8::real) \<le> 2 ^ 1023" by simp
  then show ?thesis using MAX_VALUE_ge_pow by linarith
qed

lemma foldl_js_add_Fin:
  assumes "\<forall>a\<in>set as. \<bar>a\<bar> \<le> B" "\<bar>s\<bar> + real (length as) * B \<le> MAX_VALUE" "0 \<le> B"
  shows "foldl js_add (Fin s) (map Fin as) = Fin (s + sum_list as)"
  using assms
proof (induction as arbitrary: s)
  case Nil
  then show ?case by simp
next
  case (Cons a as)
  have a: "\<bar>a\<bar> \<le> B" using Cons.prems(1) by simp
  have le: "\<bar>s\<bar> + B + real (length as) * B \<le> MAX_VALUE"
    using Cons.prems(2) by (simp add: algebra_simps)
  have "0 \<le> real (length as) * B" using Cons.prems(3) by simp
  then have "\<bar>s + a\<bar> \<le> MAX_VALUE" using a le by linarith
  then have st: "overflow (s + a) = Fin (s + a)" by (rule overflow_in_range)
  have "\<bar>s + a\<bar> + real (length as) * B \<le> MAX_VALUE" using a le by linarith
  then have "foldl js_add (Fin (s + a)) (map Fin as) = Fin (s + a + sum_list as)"
    using Cons.prems by (intro Cons.IH) simp_all
  then show ?case by (simp add: st add.assoc)
qed

lemma sum_list_abs_bound:
  fixes as :: "real list"
  assumes "\<forall>a\<in>set as. \<bar>a\<bar> \<le> B"
  shows "\<bar>sum_list as\<bar> \<le> real (length as) * B"
  using assms
proof (induction as)
  case Nil
  then show ?case by simp
next
  case (Cons a as)
  then have "\<bar>a\<bar> \<le> B" "\<bar>sum_list as\<bar> \<le> real (length as) * B" by simp_all
  then show ?case by (simp add: algebra_simps)
qed

lemma sum_list_nonneg_bound:
  fixes ds :: "real list"
  assumes "\<forall>d\<in>set ds. 0 \<le> d \<and> d \<le> B"
  shows "0 \<le> sum_list ds \<and> sum_list ds \<le> real (length ds) * B"
  using assms
proof (induction ds)
  case Nil
  then show ?case by simp
next
  case (Cons d ds)
  then have "0 \<le> d" "d \<le> B" "0 \<le> sum_list ds" "sum_list ds \<le> real (length ds) * B"
    by simp_all
  then show ?case by (simp add: algebra_simps)
qed

lemma seriesStats_finite:
  fixes as :: "real list"
  assumes n: "2 \<le> n" "length as = n" and b: "\<forall>a\<in>set as. \<bar>a\<bar> \<le> 1"
    and r: "4 * real n \<le> MAX_VALUE"
  shows "seriesStats (map Fin as) n = Inr (Fin (sample_mean as), Fin (sample_sdev as))"
proof -
  define \<mu> where "\<mu> = sum_list as / real n"
  define ds where "ds = map (\<lambda>a. (a - \<mu>)\<^sup>2) as"
  have npos: "0 < real n" "1 \<le> real n - 1" using n(1) by simp_all
  have S: "foldl js_add (Fin 0) (map Fin as) = Fin (sum_list as)"
    using foldl_js_add_Fin[of as 1 0] b r n(2) npos by simp
  have Sb: "\<bar>sum_list as\<bar> \<le> real n" using sum_list_abs_bound[OF b] n(2) by simp
  have mub: "\<bar>\<mu>\<bar> \<le> 1" using Sb npos by (simp add: \<mu>_def divide_le_eq)
  have mean: "js_div (Fin (sum_list as)) (Fin (real n)) = Fin \<mu>"
    using npos mub MAX_VALUE_ge_1 by (simp add: \<mu>_def[symmetric] overflow_in_range)
  have dev: "square (js_sub (Fin a) (Fin \<mu>)) = Fin ((a - \<mu>)\<^sup>2) \<and> 0 \<le> (a - \<mu>)\<^sup>2 \<and> (a - \<mu>)\<^sup>2 \<le> 4"
    if "a \<in> set as" for a
  proof -
    have a: "\<bar>a\<bar> \<le> 1" using that b by simp
    then have d: "\<bar>a - \<mu>\<bar> \<le> 2" using mub by linarith
    then have "\<bar>a - \<mu>\<bar> \<le> MAX_VALUE" using MAX_VALUE_ge_8 by linarith
    then have sub: "js_sub (Fin a) (Fin \<mu>) = Fin (a - \<mu>)"
      by (simp add: js_sub_def overflow_in_range)
    have "\<bar>a - \<mu>\<bar> * \<bar>a - \<mu>\<bar> \<le> 2 * 2" using d by (intro mult_mono) simp_all
    then have sq4: "(a - \<mu>)\<^sup>2 \<le> 4" by (simp add: power2_eq_square abs_mult[symmetric])
    then have "\<bar>(a - \<mu>) * (a - \<mu>)\<bar> \<le> MAX_VALUE"
      using MAX_VALUE_ge_8 by (simp add: power2_eq_square)
    then have "square (Fin (a - \<mu>)) = Fin ((a - \<mu>)\<^sup>2)"
      by (simp add: square_def overflow_in_range power2_eq_square)
    then show ?thesis using sub sq4 by simp
  qed
  have devs: "map (\<lambda>x. square (js_sub x (Fin \<mu>))) (map Fin as) = map Fin ds"
    using dev by (simp add: ds_def)
  have dsb: "\<forall>d\<in>set ds. 0 \<le> d \<and> d \<le> 4" using dev by (auto simp: ds_def)
  have dlen: "length ds = n" using n(2) by (simp add: ds_def)
  obtain d0 rest where dc: "ds = d0 # rest" using dlen n(1) by (cases ds) auto
  have d0: "0 \<le> d0" "d0 \<le> 4" and restb: "\<forall>a\<in>set rest. \<bar>a\<bar> \<le> 4"
    using dsb dc by auto
  have "\<bar>d0\<bar> + real (length rest) * 4 \<le> 4 * real n" using d0 dlen dc by auto
  then have "foldl js_add (Fin d0) (map Fin rest) = Fin (d0 + sum_list rest)"
    using r by (intro foldl_js_add_Fin[OF restb]) simp_all
  then have red: "reduce_add (map Fin ds) = Inr (Fin (sum_list ds))"
    by (simp add: reduce_add_def dc)
  have sb: "0 \<le> sum_list ds" "sum_list ds \<le> real n * 4"
    using sum_list_nonneg_bound[OF dsb] dlen by simp_all
  define q where "q = sum_list ds / (real n - 1)"
  have q0: "0 \<le> q" using sb npos by (simp add: q_def)
  have "real n \<le> 2 * (real n - 1)" using n(1) by simp
  then have "sum_list ds \<le> 8 * (real n - 1)" using sb by linarith
  then have "q \<le> 8" using npos by (simp add: q_def divide_le_eq)
  then have "\<bar>q\<bar> \<le> MAX_VALUE" using q0 MAX_VALUE_ge_8 by linarith
  then have qd: "js_div (Fin (sum_list ds)) (Fin (real n - 1)) = Fin q"
    using npos by (simp add: q_def[symmetric] overflow_in_range)
  have sd: "js_sqrt (Fin q) = Fin (sqrt q)" using q0 by simp
  have "seriesStats (map Fin as) n = Inr (Fin \<mu>, Fin (sqrt q))"
    unfolding seriesStats_def Let_def S mean devs red using qd sd by simp
  moreover have "\<mu> = sample_mean as" by (simp add: \<mu>_def sample_mean_def n(2))
  moreover have "sqrt q = sample_sdev as"
    by (simp add: q_def ds_def sample_sdev_def \<mu>_def sample_mean_def n(2))
  ultimately show ?thesis by simp
qed

text \<open>
  As claim C8 states it, the harness guards the division by \<open>steps - 1\<close>. It does
  not: with one recorded sweep \<open>equilibriumProperties\<close> returns normally and both
  standard deviations are NaN.
\<close>

theorem equilibrium_sdev_counterexample:
  "\<not> isl (equilibriumProperties 2 ''metro'' ''plus'' (Fin 1) 0 1 1 paused2)
   \<and> R_sdev (fst (projr (equilibriumProperties 2 ''metro'' ''plus'' (Fin 1) 0 1 1 paused2))) = NaN
   \<and> M_sdev (fst (projr (equilibriumProperties 2 ''metro'' ''plus'' (Fin 1) 0 1 1 paused2))) = NaN"
  using equilibrium_single_sweep[of 2 "''metro''" "''plus''" "Fin 1" 0 1 paused2] by auto


text \<open>
  C8, as the code has it. On a series of finite numbers of magnitude at most 1
  (at least two of them, and few enough for their sums to stay in range) the
  statistics of the harness are the sample mean and the sample standard deviation
  with divisor \<open>steps - 1\<close>; the numbers \<open>equilibriumProperties\<close> returns are these
  statistics of its per-sweep means. There is no guard: with one recorded sweep
  the routine returns normally and both standard deviations are NaN, for every
  input; with no recorded sweep it ends in a TypeError while writing the energies.
\<close>

theorem equilibrium_sdev:
  "(2 \<le> n \<and> length as = n \<and> (\<forall>a\<in>set as. \<bar>a\<bar> \<le> 1) \<and> 4 * real n \<le> MAX_VALUE \<longrightarrow>
      seriesStats (map Fin as) n = Inr (Fin (sample_mean as), Fin (sample_sdev as)))
   \<and> (\<forall>res Es Rs Ms s'.
        equilibriumProperties g algo initState T burnin steps reps s = Inr (res, Es, Rs, Ms, s') \<longrightarrow>
          length Rs = steps \<and> length Ms = steps
          \<and> seriesStats Rs steps = Inr (R_mean res, R_sdev res)
          \<and> seriesStats Ms steps = Inr (M_mean res, M_sdev res))
   \<and> \<not> isl (equilibriumProperties g algo initState T burnin 1 reps s)
   \<and> R_sdev (fst (projr (equilibriumProperties g algo initState T burnin 1 reps s))) = NaN
   \<and> M_sdev (fst (projr (equilibriumProperties g algo initState T burnin 1 reps s))) = NaN
   \<and> equilibriumProperties g algo initState T burnin 0 reps s = Inl TypeError"
proof (intro conjI allI impI)
  assume "2 \<le> n \<and> length as = n \<and> (\<forall>a\<in>set as. \<bar>a\<bar> \<le> 1) \<and> 4 * real n \<le> MAX_VALUE"
  then show "seriesStats (map Fin as) n = Inr (Fin (sample_mean as), Fin (sample_sdev as))"
    using seriesStats_finite by blast
next
  fix res Es Rs Ms s'
  assume a: "equilibriumProperties g algo initState T burnin steps reps s = Inr (res, Es, Rs, Ms, s')"
  obtain s1 Es0 Rs0 Ms0 where l: "length Rs0 = steps" "length Ms0 = steps"
    and e: "equilibriumProperties g algo initState T burnin steps reps s =
       (if steps = 0 then Inl TypeError
        else case seriesStats (map (\<lambda>x. js_div x (Fin (real reps))) Rs0) steps of
                Inl e \<Rightarrow> Inl e
              | Inr (Rm, Rs') \<Rightarrow>
                  (case seriesStats (map (\<lambda>x. js_div x (Fin (real reps))) Ms0) steps of
                     Inl e \<Rightarrow> Inl e
                   | Inr (Mm, Ms') \<Rightarrow>
                       Inr (\<lparr>R_mean = Rm, R_sdev = Rs', M_mean = Mm, M_sdev = Ms'\<rparr>,
                            map (\<lambda>x. js_div x (Fin (real reps))) Es0,
                            map (\<lambda>x. js_div x (Fin (real reps))) Rs0,
                            map (\<lambda>x. js_div x (Fin (real reps))) Ms0, s1)))"
    using equilibriumProperties_unfold[of steps g algo initState T burnin reps s] by blast
  from a[unfolded e] l
  have "length Rs = steps \<and> length Ms = steps
          \<and> seriesStats Rs steps = Inr (R_mean res, R_sdev res)
          \<and> seriesStats Ms steps = Inr (M_mean res, M_sdev res)"
    by (auto split: if_splits sum.splits prod.splits)
  then show "length Rs = steps" "length Ms = steps"
    "seriesStats Rs steps = Inr (R_mean res, R_sdev res)"
    "seriesStats Ms steps = Inr (M_mean res, M_sdev res)"
    by simp_all
next
  show "\<not> isl (equilibriumProperties g algo initState T burnin 1 reps s)"
    "R_sdev (fst (projr (equilibriumProperties g algo initState T burnin 1 reps s))) = NaN"
    "M_sdev (fst (projr (equilibriumProperties g algo initState T burnin 1 reps s))) = NaN"
    using equilibrium_single_sweep[of g algo initState T burnin reps s] by auto
next
  show "equilibriumProperties g algo initState T burnin 0 reps s = Inl TypeError"
    by (rule equilibrium_no_sweep)
qed

theorem equilibrium_sdev_witness:
  "seriesStats [Fin 1, Fin 0, Fin 1] 3 = Inr (Fin (sample_mean [1, 0, 1]), Fin (sample_sdev [1, 0, 1]))
   \<and> sample_sdev [1, 0, 1] = sqrt (1 / 3)
   \<and> seriesStats (fst (snd (snd (projr (equilibriumProperties 2 ''metro'' ''plus'' (Fin 1) 0 1 1 paused2))))) 1
       = Inr (R_mean (fst (projr (equilibriumProperties 2 ''metro'' ''plus'' (Fin 1) 0 1 1 paused2))), NaN)"
proof -
  have "4 * real 3 \<le> 2 ^ 1023" by simp
  then have h: "(2::nat) \<le> 3 \<and> length [1, 0, 1::real] = 3 \<and> (\<forall>a\<in>set [1, 0, 1::real]. \<bar>a\<bar> \<le> 1)
      \<and> 4 * real 3 \<le> MAX_VALUE"
    using MAX_VALUE_ge_pow by simp
  note t = equilibrium_sdev[of 3 "[1, 0, 1]" 2 "''metro''" "''plus''" "Fin 1" 0 1 1 paused2]
  have a: "seriesStats [Fin 1, Fin 0, Fin 1] 3
      = Inr (Fin (sample_mean [1, 0, 1]), Fin (sample_sdev [1, 0, 1]))"
    using mp[OF t[THEN conjunct1] h] by simp
  have b: "sample_sdev [1, 0, 1] = sqrt (1 / 3)"
    by (simp add: sample_sdev_def sample_mean_def power2_eq_square)
  obtain res Es Rs Ms s' where
    e: "equilibriumProperties 2 ''metro'' ''plus'' (Fin 1) 0 1 1 paused2 = Inr (res, Es, Rs, Ms, s')"
    using t[THEN conjunct2, THEN conjunct2, THEN conjunct1]
    by (cases "equilibriumProperties 2 ''metro'' ''plus'' (Fin 1) 0 1 1 paused2") auto
  have "R_sdev res = NaN"
    using t[THEN conjunct2, THEN conjunct2, THEN conjunct2, THEN conjunct1, unfolded e] by simp
  moreover have "seriesStats Rs 1 = Inr (R_mean res, R_sdev res)"
    using t[THEN conjunct2, THEN conjunct1] e by blast
  ultimately have c: "seriesStats Rs 1 = Inr (R_mean res, NaN)" by simp
  show ?thesis unfolding e using a b c by simp
qed



section \<open>The visitation sequences (claim C3)\<close>

text \<open>
  A walk that always moves to the next site of an order visits every site once:
  \<open>bel p\<close> is the set of sites before \<open>p\<close>, and \<open>lst\<close> holds of the last site.
\<close>

lemma traversal_step:
  fixes nxt :: "'a \<Rightarrow> 'a" and G :: "'a set" and bel :: "'a \<Rightarrow> 'a set" and lst :: "'a \<Rightarrow> bool"
  assumes fin: "finite G" and p0: "p0 \<in> G" "bel p0 = {}"
    and irr: "\<And>p. p \<in> G \<Longrightarrow> p \<notin> bel p" and sub: "\<And>p. p \<in> G \<Longrightarrow> bel p \<subseteq> G"
    and step: "\<And>p. p \<in> G \<Longrightarrow> \<not> lst p \<Longrightarrow> nxt p \<in> G \<and> bel (nxt p) = insert p (bel p)"
    and lastbel: "\<And>p. p \<in> G \<Longrightarrow> lst p \<Longrightarrow> bel p = G - {p}"
  shows "k < card G \<Longrightarrow> (nxt ^^ k) p0 \<in> G \<and> card (bel ((nxt ^^ k) p0)) = k"
proof (induction k)
  case 0
  then show ?case using p0 by simp
next
  case (Suc k)
  let ?p = "(nxt ^^ k) p0"
  have ih: "?p \<in> G" "card (bel ?p) = k" using Suc by simp_all
  have "\<not> lst ?p"
  proof
    assume "lst ?p"
    then have "card (bel ?p) = card G - 1" using lastbel[OF ih(1)] ih(1) fin by simp
    then show False using ih(2) Suc.prems by simp
  qed
  then have s: "nxt ?p \<in> G" "bel (nxt ?p) = insert ?p (bel ?p)" using step[OF ih(1)] by simp_all
  have "finite (bel ?p)" using sub[OF ih(1)] fin by (rule finite_subset)
  then have "card (bel (nxt ?p)) = Suc k" using s(2) irr[OF ih(1)] ih(2) by simp
  then show ?case using s(1) by simp
qed

lemma traversal_last:
  fixes nxt :: "'a \<Rightarrow> 'a" and G :: "'a set" and bel :: "'a \<Rightarrow> 'a set" and lst :: "'a \<Rightarrow> bool"
  assumes fin: "finite G" and p0: "p0 \<in> G" "bel p0 = {}"
    and irr: "\<And>p. p \<in> G \<Longrightarrow> p \<notin> bel p" and sub: "\<And>p. p \<in> G \<Longrightarrow> bel p \<subseteq> G"
    and step: "\<And>p. p \<in> G \<Longrightarrow> \<not> lst p \<Longrightarrow> nxt p \<in> G \<and> bel (nxt p) = insert p (bel p)"
    and lastbel: "\<And>p. p \<in> G \<Longrightarrow> lst p \<Longrightarrow> bel p = G - {p}"
    and k: "k < card G"
  shows "lst ((nxt ^^ k) p0) \<longleftrightarrow> Suc k = card G"
proof
  let ?p = "(nxt ^^ k) p0"
  have pk: "?p \<in> G" "card (bel ?p) = k"
    using traversal_step[of G p0 bel lst nxt k, OF fin p0 irr sub step lastbel k] by simp_all
  {
    assume "lst ?p"
    then have "card (bel ?p) = card G - 1" using lastbel[OF pk(1)] pk(1) fin by simp
    then show "Suc k = card G" using pk(2) k by simp
  }
  {
    assume e: "Suc k = card G"
    show "lst ?p"
    proof (rule ccontr)
      assume "\<not> lst ?p"
      then have s: "nxt ?p \<in> G" "bel (nxt ?p) = insert ?p (bel ?p)"
        using step[OF pk(1)] by simp_all
      have "finite (bel ?p)" using sub[OF pk(1)] fin by (rule finite_subset)
      then have c: "card (bel (nxt ?p)) = Suc k" using s(2) irr[OF pk(1)] pk(2) by simp
      have "bel (nxt ?p) \<subseteq> G - {nxt ?p}" using sub[OF s(1)] irr[OF s(1)] by auto
      then have "card (bel (nxt ?p)) \<le> card (G - {nxt ?p})" using fin by (intro card_mono) auto
      then show False using c e s(1) fin by simp
    qed
  }
qed

lemma traversal_all:
  fixes nxt :: "'a \<Rightarrow> 'a" and G :: "'a set" and bel :: "'a \<Rightarrow> 'a set" and lst :: "'a \<Rightarrow> bool"
  assumes fin: "finite G" and p0: "p0 \<in> G" "bel p0 = {}"
    and irr: "\<And>p. p \<in> G \<Longrightarrow> p \<notin> bel p" and sub: "\<And>p. p \<in> G \<Longrightarrow> bel p \<subseteq> G"
    and step: "\<And>p. p \<in> G \<Longrightarrow> \<not> lst p \<Longrightarrow> nxt p \<in> G \<and> bel (nxt p) = insert p (bel p)"
    and lastbel: "\<And>p. p \<in> G \<Longrightarrow> lst p \<Longrightarrow> bel p = G - {p}"
  shows "distinct (map (\<lambda>k. (nxt ^^ k) p0) [0..<card G])
         \<and> set (map (\<lambda>k. (nxt ^^ k) p0) [0..<card G]) = G"
proof -
  note st = traversal_step[of G p0 bel lst nxt, OF fin p0 irr sub step lastbel]
  have inj: "inj_on (\<lambda>k. (nxt ^^ k) p0) {0..<card G}"
  proof (rule inj_onI)
    fix j k assume j: "j \<in> {0..<card G}" and k: "k \<in> {0..<card G}"
      and e: "(nxt ^^ j) p0 = (nxt ^^ k) p0"
    have cj: "card (bel ((nxt ^^ j) p0)) = j" using st[of j] j by simp
    have ck: "card (bel ((nxt ^^ k) p0)) = k" using st[of k] k by simp
    show "j = k" using cj ck e by metis
  qed
  then have d: "distinct (map (\<lambda>k. (nxt ^^ k) p0) [0..<card G])"
    by (simp add: distinct_map)
  have sub': "set (map (\<lambda>k. (nxt ^^ k) p0) [0..<card G]) \<subseteq> G" using st by auto
  have "card (set (map (\<lambda>k. (nxt ^^ k) p0) [0..<card G])) = card G"
    using d distinct_card[OF d] by simp
  then have "set (map (\<lambda>k. (nxt ^^ k) p0) [0..<card G]) = G"
    using sub' fin by (intro card_subset_eq) auto
  then show ?thesis using d by simp
qed

lemma sites_finite [simp]: "finite (sites g)" by (simp add: sites_def)
lemma sites_card [simp]: "card (sites g) = g * g" by (simp add: sites_def)


lemma diag_next_sites:
  assumes "p \<in> sites g" "p \<noteq> (g - 1, g - 1)"
  shows "diagonalNext g p \<in> sites g"
proof -
  obtain x y where p: "p = (x, y)" by (cases p)
  have b: "x < g" "y < g" "x \<noteq> g - 1 \<or> y \<noteq> g - 1" using assms p by (auto simp: sites_def)
  show ?thesis
    unfolding p diagonalNext_def Let_def prod.case sites_def
    using b by auto
qed

lemma diag_next_below:
  assumes "p \<in> sites g" "p \<noteq> (g - 1, g - 1)"
  shows "diagBelow g (diagonalNext g p) = insert p (diagBelow g p)"
proof -
  obtain x y where p: "p = (x, y)" by (cases p)
  have b: "x < g" "y < g" "x \<noteq> g - 1 \<or> y \<noteq> g - 1" using assms p by (auto simp: sites_def)
  have "(a, c) \<in> diagBelow g (diagonalNext g (x, y)) \<longleftrightarrow> (a, c) = (x, y) \<or> (a, c) \<in> diagBelow g (x, y)"
    for a c
    unfolding diagonalNext_def Let_def prod.case diagBelow_def sites_def
    using b by (simp split: if_splits) arith
  then show ?thesis unfolding p by auto
qed

lemma diag_below_irr: "p \<notin> diagBelow g p"
  by (simp add: diagBelow_def)

lemma diag_below_sub: "diagBelow g p \<subseteq> sites g"
  by (auto simp: diagBelow_def)

lemma diag_below_first: "diagBelow g (0, 0) = {}"
  by (auto simp: diagBelow_def)

lemma diag_below_last:
  assumes "0 < g"
  shows "diagBelow g (g - 1, g - 1) = sites g - {(g - 1, g - 1)}"
proof -
  have "(a, c) \<in> diagBelow g (g - 1, g - 1) \<longleftrightarrow> (a, c) \<in> sites g - {(g - 1, g - 1)}" for a c
    unfolding diagBelow_def sites_def using assms by simp arith
  then show ?thesis by auto
qed

lemma iterate_upt:
  "map (\<lambda>k. (f ^^ k) p) [0..<Suc n] = p # map (\<lambda>k. (f ^^ k) (f p)) [0..<n]"
proof -
  have "[0..<Suc n] = 0 # map Suc [0..<n]" by (simp add: upt_conv_Cons map_Suc_upt)
  then show ?thesis by (simp add: comp_def funpow_swap1 del: upt_Suc)
qed

lemma diagonalFrom_iterate:
  "diagonalFrom g p count = map (\<lambda>k. (diagonalNext g ^^ k) p) [0..<g * g - count]"
proof (induction g p count rule: diagonalFrom.induct)
  case (1 g p count)
  show ?case
  proof (cases "count < g * g")
    case True
    then have "g * g - count = Suc (g * g - Suc count)" by simp
    then show ?thesis
      using 1[OF True] True
      by (subst diagonalFrom.simps) (simp add: iterate_upt del: upt_Suc)
  next
    case False
    then show ?thesis by (subst diagonalFrom.simps) simp
  qed
qed

lemma diagonalGen_all:
  "length (diagonalGen g) = g * g \<and> distinct (diagonalGen g) \<and> set (diagonalGen g) = sites g"
proof (cases "g = 0")
  case True
  then show ?thesis by (simp add: diagonalGen_def diagonalFrom_iterate sites_def)
next
  case False
  then have g: "0 < g" by simp
  have e: "diagonalGen g = map (\<lambda>k. (diagonalNext g ^^ k) (0, 0)) [0..<card (sites g)]"
    by (simp add: diagonalGen_def diagonalFrom_iterate)
  have z: "(0, 0) \<in> sites g" using g by (simp add: sites_def)
  have "distinct (map (\<lambda>k. (diagonalNext g ^^ k) (0, 0)) [0..<card (sites g)])
         \<and> set (map (\<lambda>k. (diagonalNext g ^^ k) (0, 0)) [0..<card (sites g)]) = sites g"
  proof (rule traversal_all[of "sites g" "(0, 0)" "diagBelow g" "\<lambda>p. p = (g - 1, g - 1)"
        "diagonalNext g"])
    show "finite (sites g)" by simp
    show "(0, 0) \<in> sites g" by (rule z)
    show "diagBelow g (0, 0) = {}" by (rule diag_below_first)
    show "\<And>p. p \<in> sites g \<Longrightarrow> p \<notin> diagBelow g p" by (rule diag_below_irr)
    show "\<And>p. p \<in> sites g \<Longrightarrow> diagBelow g p \<subseteq> sites g" by (rule diag_below_sub)
    show "\<And>p. p \<in> sites g \<Longrightarrow> p \<noteq> (g - 1, g - 1) \<Longrightarrow>
        diagonalNext g p \<in> sites g \<and> diagBelow g (diagonalNext g p) = insert p (diagBelow g p)"
      using diag_next_sites diag_next_below by blast
    show "\<And>p. p \<in> sites g \<Longrightarrow> p = (g - 1, g - 1) \<Longrightarrow> diagBelow g p = sites g - {p}"
      using diag_below_last[OF g] by simp
  qed
  then show ?thesis unfolding e by simp
qed

lemma bous_mem:
  "(a, c) \<in> bousBelow g (x, y) \<longleftrightarrow>
     a < g \<and> c < g \<and> (c < y \<or> (c = y \<and> (if y mod 2 = 0 then a < x else g - 1 - a < g - 1 - x)))"
  unfolding bousBelow_def bousKey_def sites_def
  by (cases "y mod 2 = 0") auto

lemma bous_next_cases:
  assumes "x < g" "y < g" "\<not> bousLast g (x, y)"
  shows "(y mod 2 = 0 \<and> x < g - 1 \<and> boustrophedonNext g (x, y) = (x + 1, y))
       \<or> (y mod 2 = 0 \<and> x = g - 1 \<and> y + 1 < g \<and> (y + 1) mod 2 = 1
            \<and> boustrophedonNext g (x, y) = (x, y + 1))
       \<or> (y mod 2 = 1 \<and> 0 < x \<and> boustrophedonNext g (x, y) = (x - 1, y))
       \<or> (y mod 2 = 1 \<and> x = 0 \<and> y + 1 < g \<and> (y + 1) mod 2 = 0
            \<and> boustrophedonNext g (x, y) = (x, y + 1))"
proof (cases "y mod 2 = 0")
  case True
  then have odd: "(y + 1) mod 2 = 1" by presburger
  show ?thesis
  proof (cases "x < g - 1")
    case True
    with \<open>y mod 2 = 0\<close> show ?thesis by (simp add: boustrophedonNext_def)
  next
    case False
    then have x: "x = g - 1" using assms(1) by simp
    then have "y \<noteq> g - 1" using assms(3) \<open>y mod 2 = 0\<close> by (auto simp: bousLast_def bousKey_def)
    then have "y + 1 < g" using assms(2) by simp
    then show ?thesis using x \<open>y mod 2 = 0\<close> odd by (simp add: boustrophedonNext_def)
  qed
next
  case False
  then have o: "y mod 2 = 1" by presburger
  then have even: "(y + 1) mod 2 = 0" by presburger
  show ?thesis
  proof (cases "0 < x")
    case True
    then show ?thesis using o by (simp add: boustrophedonNext_def)
  next
    case False
    then have x: "x = 0" by simp
    then have "y \<noteq> g - 1" using assms(3) o by (auto simp: bousLast_def bousKey_def)
    then have "y + 1 < g" using assms(2) by simp
    then show ?thesis using x o even by (simp add: boustrophedonNext_def)
  qed
qed

lemma bous_next_sites:
  assumes "p \<in> sites g" "\<not> bousLast g p"
  shows "boustrophedonNext g p \<in> sites g"
proof -
  obtain x y where p: "p = (x, y)" by (cases p)
  have b: "x < g" "y < g" using assms p by (auto simp: sites_def)
  show ?thesis
    using bous_next_cases[OF b assms(2)[unfolded p]] b unfolding p sites_def by auto
qed

lemma bous_next_below:
  assumes "p \<in> sites g" "\<not> bousLast g p"
  shows "bousBelow g (boustrophedonNext g p) = insert p (bousBelow g p)"
proof -
  obtain x y where p: "p = (x, y)" by (cases p)
  have b: "x < g" "y < g" using assms p by (auto simp: sites_def)
  have "(a, c) \<in> bousBelow g (boustrophedonNext g (x, y))
          \<longleftrightarrow> (a, c) = (x, y) \<or> (a, c) \<in> bousBelow g (x, y)" for a c
    using bous_next_cases[OF b assms(2)[unfolded p]]
  proof (elim disjE conjE)
    assume "y mod 2 = 0" "x < g - 1" "boustrophedonNext g (x, y) = (x + 1, y)"
    then show ?thesis using b by (simp add: bous_mem) arith
  next
    assume "y mod 2 = 0" "x = g - 1" "y + 1 < g" "(y + 1) mod 2 = 1"
      "boustrophedonNext g (x, y) = (x, y + 1)"
    then show ?thesis using b by (simp add: bous_mem) arith
  next
    assume "y mod 2 = 1" "0 < x" "boustrophedonNext g (x, y) = (x - 1, y)"
    then show ?thesis using b by (simp add: bous_mem) arith
  next
    assume "y mod 2 = 1" "x = 0" "y + 1 < g" "(y + 1) mod 2 = 0"
      "boustrophedonNext g (x, y) = (x, y + 1)"
    then show ?thesis using b by (simp add: bous_mem) arith
  qed
  then show ?thesis unfolding p by auto
qed

lemma bous_below_irr: "p \<notin> bousBelow g p"
  by (simp add: bousBelow_def)

lemma bous_below_sub: "bousBelow g p \<subseteq> sites g"
  by (auto simp: bousBelow_def)

lemma bous_below_first: "bousBelow g (0, 0) = {}"
  by (auto simp: bousBelow_def bousKey_def)

lemma bous_below_last:
  assumes "p \<in> sites g" "bousLast g p"
  shows "bousBelow g p = sites g - {p}"
proof -
  obtain x y where p: "p = (x, y)" by (cases p)
  have b: "x < g" "y < g" using assms p by (auto simp: sites_def)
  have l: "y = g - 1" "if y mod 2 = 0 then x = g - 1 else g - 1 - x = g - 1"
    using assms(2) by (auto simp: bousLast_def bousKey_def p)
  have "(a, c) \<in> bousBelow g (x, y) \<longleftrightarrow> (a, c) \<in> sites g - {(x, y)}" for a c
    using l b by (cases "y mod 2 = 0"; simp add: bous_mem sites_def; arith)
  then show ?thesis unfolding p by auto
qed

lemma bous_last_next:
  assumes "p \<in> sites g" "bousLast g p"
  shows "snd (boustrophedonNext g p) = g"
proof -
  obtain x y where p: "p = (x, y)" by (cases p)
  have b: "x < g" "y < g" using assms p by (auto simp: sites_def)
  have l: "y = g - 1" "if y mod 2 = 0 then x = g - 1 else g - 1 - x = g - 1"
    using assms(2) by (auto simp: bousLast_def bousKey_def p)
  show ?thesis
    using l b unfolding p boustrophedonNext_def Let_def prod.case
    by (cases "y mod 2 = 0") auto
qed

lemma boustrophedon_iterate:
  assumes g: "0 < g"
  shows "boustrophedonCoords g = map (\<lambda>k. (boustrophedonNext g ^^ k) (0, 0)) [0..<g * g]"
proof -
  let ?p = "\<lambda>k. (boustrophedonNext g ^^ k) (0, 0)"
  have z: "(0, 0) \<in> sites g" using g by (simp add: sites_def)
  have step: "\<And>p. p \<in> sites g \<Longrightarrow> \<not> bousLast g p \<Longrightarrow>
      boustrophedonNext g p \<in> sites g
      \<and> bousBelow g (boustrophedonNext g p) = insert p (bousBelow g p)"
    using bous_next_sites bous_next_below by blast
  have inside: "?p k \<in> sites g" if "k < g * g" for k
    using traversal_step[of "sites g" "(0, 0)" "bousBelow g" "bousLast g" "boustrophedonNext g" k,
        OF sites_finite z bous_below_first bous_below_irr bous_below_sub step bous_below_last]
      that by simp
  have last: "bousLast g (?p k) \<longleftrightarrow> Suc k = g * g" if "k < g * g" for k
    using traversal_last[of "sites g" "(0, 0)" "bousBelow g" "bousLast g" "boustrophedonNext g" k,
        OF sites_finite z bous_below_first bous_below_irr bous_below_sub step bous_below_last]
      that by simp
  have tail: "boustrophedonFrom g (?p k) = map ?p [k..<g * g]" if "k < g * g" for k
    using that
  proof (induction "g * g - k" arbitrary: k)
    case 0
    then show ?case by simp
  next
    case (Suc n)
    have in_k: "?p k \<in> sites g" using inside[OF Suc.prems] .
    then have "snd (?p k) < g" by (auto simp: sites_def)
    then have unf: "boustrophedonFrom g (?p k) = ?p k # boustrophedonFrom g (?p (Suc k))"
      by (subst boustrophedonFrom.simps) simp
    have upt: "[k..<g * g] = k # [Suc k..<g * g]" using Suc.prems by (simp add: upt_conv_Cons)
    show ?case
    proof (cases "Suc k = g * g")
      case True
      then have "bousLast g (?p k)" using last[OF Suc.prems] by simp
      then have "snd (?p (Suc k)) = g" using bous_last_next[OF in_k] by simp
      then have "boustrophedonFrom g (?p (Suc k)) = []"
        by (subst boustrophedonFrom.simps) simp
      then show ?thesis unfolding unf upt using True by simp
    next
      case False
      then have lt: "Suc k < g * g" using Suc.prems by simp
      have "n = g * g - Suc k" using Suc.hyps(2) by simp
      then have "boustrophedonFrom g (?p (Suc k)) = map ?p [Suc k..<g * g]"
        using Suc.hyps(1)[of "Suc k"] lt by simp
      then show ?thesis unfolding unf upt by simp
    qed
  qed
  have "0 < g * g" using g by simp
  then show ?thesis using tail[of 0] by (simp add: boustrophedonCoords_def)
qed

lemma boustrophedonCoords_all:
  "length (boustrophedonCoords g) = g * g \<and> distinct (boustrophedonCoords g)
   \<and> set (boustrophedonCoords g) = sites g"
proof (cases "g = 0")
  case True
  then show ?thesis
    by (simp add: boustrophedonCoords_def sites_def boustrophedonFrom.simps[of 0])
next
  case False
  then have g: "0 < g" by simp
  have z: "(0, 0) \<in> sites g" using g by (simp add: sites_def)
  have step: "\<And>p. p \<in> sites g \<Longrightarrow> \<not> bousLast g p \<Longrightarrow>
      boustrophedonNext g p \<in> sites g
      \<and> bousBelow g (boustrophedonNext g p) = insert p (bousBelow g p)"
    using bous_next_sites bous_next_below by blast
  have "distinct (map (\<lambda>k. (boustrophedonNext g ^^ k) (0, 0)) [0..<card (sites g)])
         \<and> set (map (\<lambda>k. (boustrophedonNext g ^^ k) (0, 0)) [0..<card (sites g)]) = sites g"
    by (rule traversal_all[of "sites g" "(0, 0)" "bousBelow g" "bousLast g" "boustrophedonNext g",
          OF sites_finite z bous_below_first bous_below_irr bous_below_sub step bous_below_last])
  then show ?thesis unfolding boustrophedon_iterate[OF g] by simp
qed

lemma stepBy2_set: "set (stepBy2 s g) = {x. s \<le> x \<and> x < g \<and> x mod 2 = s mod 2}"
proof (induction s g rule: stepBy2.induct)
  case (1 s g)
  show ?case
  proof (cases "s < g")
    case True
    have "{x. s \<le> x \<and> x < g \<and> x mod 2 = s mod 2}
        = insert s {x. s + 2 \<le> x \<and> x < g \<and> x mod 2 = (s + 2) mod 2}"
      using True by auto presburger+
    then show ?thesis using 1[OF True] True by (subst stepBy2.simps) simp
  next
    case False
    then show ?thesis by (subst stepBy2.simps) auto
  qed
qed

lemma stepBy2_length: "length (stepBy2 s g) = (g + 1 - s) div 2"
proof (induction s g rule: stepBy2.induct)
  case (1 s g)
  show ?case
  proof (cases "s < g")
    case True
    then have "(g + 1 - s) div 2 = Suc ((g + 1 - (s + 2)) div 2)" by presburger
    then show ?thesis using 1[OF True] True by (subst stepBy2.simps) simp
  next
    case False
    then have "(g + 1 - s) div 2 = 0" by presburger
    then show ?thesis using False by (subst stepBy2.simps) simp
  qed
qed

lemma checker_row_length:
  "length (stepBy2 (y mod 2) g) + length (stepBy2 ((y + 1) mod 2) g) = g"
proof (cases "y mod 2 = 0")
  case True
  then have "(y + 1) mod 2 = 1" by presburger
  then show ?thesis unfolding stepBy2_length True by (simp; presburger)
next
  case False
  then have o: "y mod 2 = 1" by presburger
  then have "(y + 1) mod 2 = 0" by presburger
  then show ?thesis unfolding stepBy2_length o by (simp; presburger)
qed

lemma sum_list_const: "sum_list (map (\<lambda>y. c) ys) = length ys * (c::nat)"
  by (induction ys) simp_all

lemma checkerboardGen_length: "length (checkerboardGen g) = g * g"
proof -
  have "length (checkerboardGen g)
      = sum_list (map (\<lambda>y. length (stepBy2 (y mod 2) g)) [0..<g])
        + sum_list (map (\<lambda>y. length (stepBy2 ((y + 1) mod 2) g)) [0..<g])"
    by (simp add: checkerboardGen_def length_concat comp_def)
  also have "\<dots> = sum_list (map (\<lambda>y. length (stepBy2 (y mod 2) g)
                                     + length (stepBy2 ((y + 1) mod 2) g)) [0..<g])"
    by (simp add: sum_list_addf)
  also have "\<dots> = sum_list (map (\<lambda>y. g) [0..<g])" by (simp only: checker_row_length)
  also have "\<dots> = g * g" by (simp add: sum_list_const)
  finally show ?thesis .
qed

lemma checkerboardGen_set: "set (checkerboardGen g) = sites g"
proof -
  have "(x, y) \<in> set (checkerboardGen g) \<longleftrightarrow> (x, y) \<in> sites g" for x y
  proof -
    have "(x, y) \<in> set (checkerboardGen g) \<longleftrightarrow>
        y < g \<and> (x \<in> set (stepBy2 (y mod 2) g) \<or> x \<in> set (stepBy2 ((y + 1) mod 2) g))"
      by (auto simp: checkerboardGen_def)
    also have "\<dots> \<longleftrightarrow> y < g \<and> x < g"
    proof (cases "x mod 2 = y mod 2")
      case True
      have "y mod 2 \<le> x" using True mod_less_eq_dividend[of x 2] by simp
      then show ?thesis unfolding stepBy2_set using True by auto
    next
      case False
      then have e: "x mod 2 = (y + 1) mod 2" by presburger
      have "(y + 1) mod 2 \<le> x" using e mod_less_eq_dividend[of x 2] by simp
      then show ?thesis unfolding stepBy2_set using e by auto
    qed
    finally show ?thesis by (simp add: sites_def conj_commute)
  qed
  then show ?thesis by auto
qed

lemma all_sites_distinct:
  assumes "length cs = g * g" "set cs = sites g"
  shows "distinct cs"
  by (rule card_distinct) (simp add: assms)

lemma checkerboardGen_all:
  "length (checkerboardGen g) = g * g \<and> distinct (checkerboardGen g)
   \<and> set (checkerboardGen g) = sites g"
  using checkerboardGen_length checkerboardGen_set all_sites_distinct by blast

lemma typewriterGen_all:
  "length (typewriterGen g 0 0) = g * g \<and> distinct (typewriterGen g 0 0)
   \<and> set (typewriterGen g 0 0) = sites g"
  by (simp add: typewriterGen_length typewriterGen_distinct typewriterGen_set sites_def)

lemma rng_ok_tail: "rng_ok r \<Longrightarrow> rng_ok (snd (random r))"
  by (simp add: rng_ok_def random_def)

lemma randomIndex_range:
  assumes "rng_ok r" "0 < n"
  shows "fst (randomIndex n r) < n \<and> rng_ok (snd (randomIndex n r))"
proof -
  have u: "0 \<le> r 0" "r 0 < 1" using assms(1) by (simp_all add: rng_ok_def)
  have "r 0 * real n < real n" using u assms(2) by simp
  then have "\<lfloor>r 0 * real n\<rfloor> < int n" by (simp add: floor_less_iff)
  moreover have "0 \<le> \<lfloor>r 0 * real n\<rfloor>" using u by simp
  ultimately have "nat \<lfloor>r 0 * real n\<rfloor> < n" by linarith
  then show ?thesis using rng_ok_tail[OF assms(1)] by (simp add: randomIndex_def random_def)
qed

lemma swapDown_perm:
  assumes "rng_ok r" "i < n" "length p = n" "distinct p" "set p = {0..<n}"
  shows "length (fst (swapDown n i (p, r))) = n \<and> distinct (fst (swapDown n i (p, r)))
         \<and> set (fst (swapDown n i (p, r))) = {0..<n}"
  using assms
proof (induction i arbitrary: p r)
  case 0
  then show ?case by simp
next
  case (Suc i)
  show ?case
  proof (cases "Suc i > 1")
    case False
    then show ?thesis using Suc.prems by simp
  next
    case True
    obtain j r' where j: "randomIndex n r = (j, r')" by (cases "randomIndex n r")
    have n: "0 < n" using Suc.prems(2) by simp
    have jr: "j < n" "rng_ok r'" using randomIndex_range[OF Suc.prems(1) n] j by simp_all
    define p2 where "p2 = p[j := p ! Suc i, Suc i := p ! j]"
    have b: "j < length p" "Suc i < length p" using jr Suc.prems by simp_all
    have l: "length p2 = n" using Suc.prems by (simp add: p2_def)
    have d: "distinct p2" unfolding p2_def using distinct_swap[OF b] Suc.prems(4) by simp
    have s: "set p2 = {0..<n}" unfolding p2_def using set_swap[OF b] Suc.prems(5) by simp
    have "swapDown n (Suc i) (p, r) = swapDown n i (p2, r')"
      using True by (simp add: j p2_def Let_def)
    moreover have "i < n" using Suc.prems(2) by simp
    ultimately show ?thesis using Suc.IH[OF jr(2) _ l d s] by simp
  qed
qed

lemma randomPermutation_perm:
  assumes "rng_ok r"
  shows "length (fst (randomPermutation n r)) = n \<and> distinct (fst (randomPermutation n r))
         \<and> set (fst (randomPermutation n r)) = {0..<n}"
proof (cases "n = 0")
  case True
  then show ?thesis by (simp add: randomPermutation_def)
next
  case False
  then have "n - 1 < n" by simp
  then show ?thesis unfolding randomPermutation_def
    by (intro swapDown_perm[OF assms]) simp_all
qed

lemma permutedGen_all:
  assumes "length p = g * g" "distinct p" "set p = {0..<g * g}"
  shows "length (permutedGen g p) = g * g \<and> distinct (permutedGen g p)
         \<and> set (permutedGen g p) = sites g"
proof (cases "g = 0")
  case True
  then show ?thesis using assms by (simp add: permutedGen_def sites_def)
next
  case False
  then have g: "0 < g" by simp
  have "set (permutedGen g p) = (\<lambda>r. (r div g, r mod g)) ` {0..<g * g}"
    by (simp add: permutedGen_def assms(3))
  also have "\<dots> = sites g"
  proof (rule set_eqI)
    fix q :: "nat \<times> nat"
    obtain x y where q: "q = (x, y)" by (cases q)
    show "q \<in> (\<lambda>r. (r div g, r mod g)) ` {0..<g * g} \<longleftrightarrow> q \<in> sites g"
    proof
      assume "q \<in> (\<lambda>r. (r div g, r mod g)) ` {0..<g * g}"
      then obtain r where r: "r < g * g" "x = r div g" "y = r mod g" using q by auto
      then have "x < g" using g by (simp add: less_mult_imp_div_less)
      then show "q \<in> sites g" using r g q by (simp add: sites_def)
    next
      assume "q \<in> sites g"
      then have b: "x < g" "y < g" using q by (auto simp: sites_def)
      have "x * g + y < g * g"
      proof -
        have "x * g + y < x * g + g" using b by simp
        also have "\<dots> = (x + 1) * g" by simp
        also have "\<dots> \<le> g * g" using b by (metis Suc_eq_plus1 Suc_leI mult.commute mult_le_mono1)
        finally show ?thesis .
      qed
      moreover have "(x * g + y) div g = x" "(x * g + y) mod g = y" using b by simp_all
      ultimately show "q \<in> (\<lambda>r. (r div g, r mod g)) ` {0..<g * g}"
        unfolding q by (intro image_eqI[where x = "x * g + y"]) simp_all
    qed
  qed
  finally have s: "set (permutedGen g p) = sites g" .
  have l: "length (permutedGen g p) = g * g" using assms(1) by (simp add: permutedGen_def)
  show ?thesis using l s all_sites_distinct by blast
qed

lemma randomCoords_length: "length (fst (randomCoords g n r)) = n"
proof (induction n arbitrary: r)
  case 0
  then show ?case by simp
next
  case (Suc n)
  obtain x r1 where a: "randomIndex g r = (x, r1)" by (cases "randomIndex g r")
  obtain y r2 where b: "randomIndex g r1 = (y, r2)" by (cases "randomIndex g r1")
  obtain rest r3 where c: "randomCoords g n r2 = (rest, r3)" by (cases "randomCoords g n r2")
  have "length rest = n" using Suc[of r2] c by simp
  then show ?case by (simp add: a b c)
qed

lemma randomIndex_always: "randomIndex n (always 0) = (0, always 0)"
  by (simp add: randomIndex_def)

lemma randomCoords_always: "randomCoords g n (always 0) = (replicate n (0, 0), always 0)"
  by (induction n) (simp_all add: randomIndex_always)

lemma randomGen_stuck:
  assumes "2 \<le> g"
  shows "\<not> distinct (fst (randomGen g (always 0))) \<and> set (fst (randomGen g (always 0))) \<noteq> sites g"
proof -
  have "2 * 2 \<le> g * g" using assms by (intro mult_le_mono) simp_all
  then obtain m where n: "g * g = Suc (Suc m)"
    by (metis Suc_le_D Suc_le_mono mult_2 one_add_one add_Suc_right add_Suc numeral_2_eq_2)
  have e: "fst (randomGen g (always 0)) = replicate (g * g) (0, 0)"
    by (simp add: randomGen_def randomCoords_always)
  have "(1, 1) \<in> sites g" using assms by (simp add: sites_def)
  moreover have "(1, 1) \<notin> set (replicate (g * g) (0::nat, 0::nat))" by simp
  ultimately have "set (replicate (g * g) (0, 0)) \<noteq> sites g" by blast
  moreover have "\<not> distinct (replicate (g * g) (0::nat, 0::nat))"
    by (simp add: n)
  ultimately show ?thesis unfolding e by simp
qed

lemma re_permutedGen_fst:
  "fst (re_permutedGen g r) = permutedGen g (fst (randomPermutation (g * g) r))"
  by (simp add: re_permutedGen_def permutedGen_def Let_def split: prod.splits)

lemma rng_ok_always: "0 \<le> u \<Longrightarrow> u < 1 \<Longrightarrow> rng_ok (always u)"
  by (simp add: rng_ok_def always_def)

text \<open>
  C3. For every grid side, and every generator whose draws lie in the unit
  interval: the typewriter, checkerboard, diagonal, boustrophedon, permuted and
  re-permuted sequences each have N coordinates, no coordinate twice, and every
  site among them. The random sequence has N coordinates too, but a legitimate
  generator (0 on every draw) makes it visit one site N times.
\<close>

theorem visitation_sequences:
  assumes "rng_ok r"
  shows "(\<forall>cs \<in> set [typewriterGen g 0 0, checkerboardGen g, diagonalGen g, boustrophedonCoords g,
                       permutedGen g (fst (randomPermutation (g * g) r)),
                       fst (re_permutedGen g r)].
            length cs = g * g \<and> distinct cs \<and> set cs = sites g)
     \<and> length (fst (randomGen g r)) = g * g
     \<and> rng_ok (always 0)
     \<and> (2 \<le> g \<longrightarrow> \<not> distinct (fst (randomGen g (always 0)))
                  \<and> set (fst (randomGen g (always 0))) \<noteq> sites g)"
proof -
  note p = randomPermutation_perm[OF assms, of "g * g"]
  have perm: "length (permutedGen g (fst (randomPermutation (g * g) r))) = g * g
      \<and> distinct (permutedGen g (fst (randomPermutation (g * g) r)))
      \<and> set (permutedGen g (fst (randomPermutation (g * g) r))) = sites g"
    using p by (intro permutedGen_all) simp_all
  have "length (fst (randomGen g r)) = g * g" by (simp add: randomGen_def randomCoords_length)
  moreover have "rng_ok (always 0)" by (simp add: rng_ok_always)
  ultimately show ?thesis
    using typewriterGen_all[of g] checkerboardGen_all[of g] diagonalGen_all[of g]
      boustrophedonCoords_all[of g] perm randomGen_stuck[of g]
    by (simp add: re_permutedGen_fst)
qed

theorem visitation_sequences_witness:
  "diagonalGen 3 = [(0, 0), (0, 1), (1, 0), (0, 2), (1, 1), (2, 0), (1, 2), (2, 1), (2, 2)]
   \<and> boustrophedonCoords 3 = [(0, 0), (1, 0), (2, 0), (2, 1), (1, 1), (0, 1), (0, 2), (1, 2), (2, 2)]
   \<and> checkerboardGen 3 = [(0, 0), (2, 0), (1, 1), (0, 2), (2, 2), (1, 0), (0, 1), (2, 1), (1, 2)]
   \<and> set (diagonalGen 3) = sites 3 \<and> distinct (boustrophedonCoords 3)
   \<and> distinct (fst (re_permutedGen 3 (always (1 / 4))))
   \<and> set (permutedGen 3 (fst (randomPermutation (3 * 3) (always (1 / 4))))) = sites 3
   \<and> \<not> distinct (fst (randomGen 3 (always 0)))"
proof -
  have h: "rng_ok (always (1 / 4))" by (simp add: rng_ok_always)
  have a: "diagonalGen 3 = [(0, 0), (0, 1), (1, 0), (0, 2), (1, 1), (2, 0), (1, 2), (2, 1), (2, 2)]"
    by code_simp
  have b: "boustrophedonCoords 3 = [(0, 0), (1, 0), (2, 0), (2, 1), (1, 1), (0, 1), (0, 2), (1, 2), (2, 2)]"
    by code_simp
  have c: "checkerboardGen 3 = [(0, 0), (2, 0), (1, 1), (0, 2), (2, 2), (1, 0), (0, 1), (2, 1), (1, 2)]"
    by code_simp
  have g: "(2::nat) \<le> 3" by simp
  note t = visitation_sequences[OF h, of 3]
  have d: "\<not> distinct (fst (randomGen 3 (always 0)))"
    using t[THEN conjunct2, THEN conjunct2, THEN conjunct2] g by blast
  have e: "set (diagonalGen 3) = sites 3" "distinct (boustrophedonCoords 3)"
    "distinct (fst (re_permutedGen 3 (always (1 / 4))))"
    "set (permutedGen 3 (fst (randomPermutation (3 * 3) (always (1 / 4))))) = sites 3"
    using t[THEN conjunct1] by simp_all
  show ?thesis using a b c d e by (intro conjI)
qed


section \<open>Unknown mode selectors (claim C7)\<close>








section \<open>The magnetization series of the harnesses (claim C10)\<close>

lemma js_ge0_cases: "js_ge x (Fin 0) = (x = PosInf \<or> (\<exists>a. x = Fin a \<and> 0 \<le> a))"
  by (cases x) auto

lemma js_ge0_overflow: "0 \<le> r \<Longrightarrow> js_ge (overflow r) (Fin 0)"
  using overflow_nonneg[of r] by (auto simp: js_ge0_cases)

lemma js_ge0_add: "js_ge a (Fin 0) \<Longrightarrow> js_ge b (Fin 0) \<Longrightarrow> js_ge (js_add a b) (Fin 0)"
  by (cases a; cases b) (simp_all add: js_ge0_overflow)

lemma js_ge0_abs: "x \<noteq> NaN \<Longrightarrow> js_ge (js_abs x) (Fin 0)"
  by (cases x) simp_all

lemma js_ge0_div: "js_ge a (Fin 0) \<Longrightarrow> 0 < b \<Longrightarrow> js_ge (js_div a (Fin b)) (Fin 0)"
  by (cases a) (simp_all add: js_ge0_overflow)

lemma js_div_Fin_not_NaN: "b \<noteq> 0 \<Longrightarrow> js_div (Fin a) (Fin b) \<noteq> NaN"
  by (simp add: overflow_def)

lemma magnetization_not_NaN: "0 < g \<Longrightarrow> magnetization g lat \<noteq> NaN"
  unfolding magnetization_def by (rule js_div_Fin_not_NaN) simp

lemma magnetization4_not_NaN: "2 < g \<Longrightarrow> magnetization4 g lat \<noteq> NaN"
  unfolding magnetization4_def by (rule js_div_Fin_not_NaN) (simp add: activeSize_def)

lemma fold_invariant:
  assumes "\<And>x a. P a \<Longrightarrow> P (f x a)" and "P a"
  shows "P (fold f xs a)"
  using assms(2) by (induction xs arbitrary: a) (simp_all add: assms(1))

lemma accumulate_nonneg:
  assumes "\<forall>h\<in>set Hs. js_ge h (Fin 0)" and "v \<noteq> NaN"
  shows "\<forall>h\<in>set (Hs[i := js_add (Hs ! i) (js_abs v)]). js_ge h (Fin 0)"
proof (cases "i < length Hs")
  case True
  then have "js_ge (Hs ! i) (Fin 0)" using assms(1) by simp
  then have "js_ge (js_add (Hs ! i) (js_abs v)) (Fin 0)"
    using assms(2) by (simp add: js_ge0_add js_ge0_abs)
  then show ?thesis using assms(1) set_update_subset_insert[of Hs i] by blast
next
  case False
  then show ?thesis using assms(1) by (simp add: list_update_beyond)
qed

lemma recordRH_nonneg:
  assumes "\<And>s. mag s \<noteq> NaN" and "\<forall>h\<in>set (snd (snd acc)). js_ge h (Fin 0)"
  shows "\<forall>h\<in>set (snd (snd (recordRH fn corr mag offset j acc))). js_ge h (Fin 0)"
proof -
  obtain s rs Hs where a: "acc = (s, rs, Hs)" by (cases acc) auto
  show ?thesis
    using accumulate_nonneg[of Hs "mag (fn s)" "offset + j"] assms
    by (simp add: a recordRH_def Let_def)
qed

lemma stepRepetition_nonneg:
  assumes m: "\<And>s. mag s \<noteq> NaN" and "\<forall>h\<in>set (snd (snd acc)). js_ge h (Fin 0)"
  shows "\<forall>h\<in>set (snd (snd (stepRepetition fn corr mag setT T1 T2 n1 n2 burnin acc))).
           js_ge h (Fin 0)"
proof -
  obtain s rs Hs where a: "acc = (s, rs, Hs)" by (cases acc) auto
  define s1 where "s1 = (fn ^^ burnin) (setT T1 s)"
  obtain s2 rs2 Hs2 where
    f: "fold (recordRH fn corr mag 0) [0..<n1] (s1, rs, Hs) = (s2, rs2, Hs2)"
    by (metis prod_cases3)
  have "\<forall>h\<in>set (snd (snd (fold (recordRH fn corr mag 0) [0..<n1] (s1, rs, Hs)))).
          js_ge h (Fin 0)"
  proof (rule fold_invariant[where P = "\<lambda>acc. \<forall>h\<in>set (snd (snd acc)). js_ge h (Fin 0)"])
    show "\<forall>h\<in>set (snd (snd (s1, rs, Hs))). js_ge h (Fin 0)" using assms(2) a by simp
  qed (rule recordRH_nonneg[OF m])
  then have h2: "\<forall>h\<in>set (snd (snd (setT T2 s2, rs2, Hs2))). js_ge h (Fin 0)"
    by (simp add: f)
  have "\<forall>h\<in>set (snd (snd (fold (recordRH fn corr mag n1) [0..<n2] (setT T2 s2, rs2, Hs2)))).
          js_ge h (Fin 0)"
    by (rule fold_invariant[where P = "\<lambda>acc. \<forall>h\<in>set (snd (snd acc)). js_ge h (Fin 0)"], rule recordRH_nonneg[OF m], assumption, rule h2)
  then show ?thesis
    by (simp add: a stepRepetition_def Let_def s1_def[symmetric] f)
qed

lemma zeros_nonneg: "\<forall>h\<in>set (replicate n (Fin 0)). js_ge h (Fin 0)"
  by simp

lemma means_nonneg:
  assumes "\<forall>h\<in>set Hs. js_ge h (Fin 0)" and "0 < reps"
  shows "\<forall>h\<in>set (map (\<lambda>x. js_div x (Fin (real reps))) Hs). js_ge h (Fin 0)"
  using assms by (simp add: js_ge0_div)

lemma means_NaN:
  "map (\<lambda>x. js_div x (Fin (real (0::nat)))) (replicate n (Fin 0)) = replicate n NaN"
  by simp

lemma stepSeries3_nonneg:
  assumes "stepSeries3 g fn T1 T2 n1 n2 burnin reps s = (rs, Hs, s')"
    and "0 < g" and "0 < reps"
  shows "\<forall>h\<in>set Hs. js_ge h (Fin 0)"
proof -
  define step where "step = (\<lambda>i::nat. stepRepetition fn
                                 (\<lambda>s'. local_correlations g (p3_lattice s'))
                                 (\<lambda>s'. magnetization g (p3_lattice s'))
                                 (\<lambda>T s'. s'\<lparr>p3_temperature := T\<rparr>)
                                 T1 T2 n1 n2 burnin)"
  define zeros where "zeros = replicate (n1 + n2) (Fin 0)"
  obtain s1 rs1 Hs1 where f: "fold step [0..<reps] (init3 g s, zeros, zeros) = (s1, rs1, Hs1)"
    by (metis prod_cases3)
  have "\<forall>h\<in>set (snd (snd (fold step [0..<reps] (init3 g s, zeros, zeros)))). js_ge h (Fin 0)"
  proof (rule fold_invariant[where P = "\<lambda>acc. \<forall>h\<in>set (snd (snd acc)). js_ge h (Fin 0)"])
    show "\<forall>h\<in>set (snd (snd (init3 g s, zeros, zeros))). js_ge h (Fin 0)"
      by (simp add: zeros_def)
  next
    fix i :: nat and a :: "p3 \<times> jsnum list \<times> jsnum list"
    assume "\<forall>h\<in>set (snd (snd a)). js_ge h (Fin 0)"
    then show "\<forall>h\<in>set (snd (snd (step i a))). js_ge h (Fin 0)"
      unfolding step_def by (rule stepRepetition_nonneg[rotated]) (rule magnetization_not_NaN[OF assms(2)])
  qed
  then have h1: "\<forall>h\<in>set Hs1. js_ge h (Fin 0)" by (simp add: f)
  have "Hs = map (\<lambda>x. js_div x (Fin (real reps))) Hs1"
    using assms(1)
    by (simp add: stepSeries3_def Let_def step_def[symmetric] zeros_def[symmetric] f)
  then show ?thesis using means_nonneg[OF h1 assms(3)] by simp
qed

lemma stepResponse3_nonneg:
  assumes "stepResponse3 g algo T1 T2 n1 n2 burnin reps s = Inr (rs, Hs, s')"
    and "0 < g" and "0 < reps"
  shows "\<forall>h\<in>set Hs. js_ge h (Fin 0)"
proof (cases "algoList algo")
  case (Own e)
  obtain fn speed where e: "e = (fn, speed)" by (cases e) auto
  have "stepSeries3 g (runSweep3 g fn) T1 T2 n1 n2 burnin reps s = (rs, Hs, s')"
    using assms(1) by (simp add: stepResponse3_def Own e)
  then show ?thesis by (rule stepSeries3_nonneg[OF _ assms(2,3)])
next
  case Inherited
  have "stepSeries3 g (\<lambda>s'. s') T1 T2 n1 n2 burnin reps s = (rs, Hs, s')"
    using assms(1) by (simp add: stepResponse3_def Inherited split: if_splits)
  then show ?thesis by (rule stepSeries3_nonneg[OF _ assms(2,3)])
next
  case Absent
  then show ?thesis using assms(1) by (simp add: stepResponse3_def)
qed


lemma stepResponse4_nonneg:
  assumes "stepResponse4 g algo boundary T1 T2 n1 n2 burnin reps s = Inr (rs, Hs, s')"
    and "2 < g" and "0 < reps"
  shows "\<forall>h\<in>set Hs. js_ge h (Fin 0)"
proof -
  obtain l0 r0 where i: "init4 g (p4_boundaryRule s) (p4_lattice s, p4_rng s) = Inr (l0, r0)"
    using assms(1)
    by (cases "init4 g (p4_boundaryRule s) (p4_lattice s, p4_rng s)")
       (auto simp: stepResponse4_def Let_def)
  obtain makeBorder where b: "boundaryList boundary = Some makeBorder"
    using assms(1,3) by (cases "boundaryList boundary") (auto simp: stepResponse4_def Let_def i)
  define fn where "fn = (if p4_algorithm s = ''metropolis'' then runMetro4 g else runGlauber4 g)"
  define step where "step = (\<lambda>(i::nat) (s', acc).
      let (l, r) = makeBorder g (p4_lattice s', p4_rng s')
      in stepRepetition fn (\<lambda>s'. local_correlations4 g (p4_lattice s'))
           (\<lambda>s'. magnetization4 g (p4_lattice s')) (\<lambda>T s'. s'\<lparr>p4_temperature := T\<rparr>)
           T1 T2 n1 n2 burnin
           (s'\<lparr>p4_boundaryRule := boundary, p4_lattice := l, p4_rng := r\<rparr>, acc))"
  define zeros where "zeros = replicate (n1 + n2) (Fin 0)"
  define s0 where "s0 = s\<lparr>p4_state := ''scrambled'', p4_lattice := l0, p4_rng := r0\<rparr>"
  obtain s1 rs1 Hs1 where f: "fold step [0..<reps] (s0, zeros, zeros) = (s1, rs1, Hs1)"
    by (metis prod_cases3)
  have "\<forall>h\<in>set (snd (snd (fold step [0..<reps] (s0, zeros, zeros)))). js_ge h (Fin 0)"
  proof (rule fold_invariant[where P = "\<lambda>acc. \<forall>h\<in>set (snd (snd acc)). js_ge h (Fin 0)"])
    show "\<forall>h\<in>set (snd (snd (s0, zeros, zeros))). js_ge h (Fin 0)"
      by (simp add: zeros_def)
  next
    fix i :: nat and a :: "p4 \<times> jsnum list \<times> jsnum list"
    assume h: "\<forall>h\<in>set (snd (snd a)). js_ge h (Fin 0)"
    obtain t acc where a: "a = (t, acc)" by (cases a) auto
    obtain l r where m: "makeBorder g (p4_lattice t, p4_rng t) = (l, r)"
      by (cases "makeBorder g (p4_lattice t, p4_rng t)") auto
    have "\<forall>h\<in>set (snd (snd (t\<lparr>p4_boundaryRule := boundary, p4_lattice := l, p4_rng := r\<rparr>, acc))).
            js_ge h (Fin 0)"
      using h a by simp
    then show "\<forall>h\<in>set (snd (snd (step i a))). js_ge h (Fin 0)"
      unfolding step_def a prod.case m Let_def
      by (rule stepRepetition_nonneg[rotated]) (rule magnetization4_not_NaN[OF assms(2)])
  qed
  then have h1: "\<forall>h\<in>set Hs1. js_ge h (Fin 0)" by (simp add: f)
  have "Hs = map (\<lambda>x. js_div x (Fin (real reps))) Hs1"
    using assms(1,3) f
    by (simp add: stepResponse4_def i b Let_def fn_def[symmetric] zeros_def[symmetric]
        s0_def[symmetric] step_def)
  then show ?thesis using means_nonneg[OF h1 assms(3)] by simp
qed

lemma recordData_nonneg:
  assumes "\<And>s. mag s \<noteq> NaN" and "\<forall>h\<in>set (snd acc). js_ge h (Fin 0)"
  shows "\<forall>h\<in>set (snd (recordData fn mag offset j acc)). js_ge h (Fin 0)"
proof -
  obtain s data where a: "acc = (s, data)" by (cases acc) auto
  show ?thesis
    using accumulate_nonneg[of data "mag (fn s)" "offset + j"] assms
    by (simp add: a recordData_def Let_def)
qed

lemma stepResponse2_nonneg:
  assumes "stepResponse2 g visitFn acceptFn T1 T2 n1 n2 burnin reps s = (data, s')"
    and "0 < g" and "0 < reps"
  shows "\<forall>h\<in>set data. js_ge h (Fin 0)"
proof -
  define mag where "mag = (\<lambda>s'::p2. magnetization g (p2_lattice s'))"
  have m: "\<And>s. mag s \<noteq> NaN" by (simp add: mag_def magnetization_not_NaN assms(2))
  define step where "step = (\<lambda>(i::nat) (s', data).
      let s1 = (runBatch g ^^ burnin) (s'\<lparr>p2_temperature := T1\<rparr>);
          (s2, data2) = fold (recordData (runBatch g) mag 0) [0..<n1] (s1, data)
      in fold (recordData (runBatch g) mag n1) [0..<n2] (s2\<lparr>p2_temperature := T2\<rparr>, data2))"
  define s0 where "s0 = init2 g ''scrambled''
                          (s\<lparr>p2_itinerary := Some visitFn, p2_acceptanceFn := acceptFn\<rparr>)"
  define zeros where "zeros = replicate (n1 + n2) (Fin 0)"
  obtain s3 d3 where f: "fold step [0..<reps] (s0, zeros) = (s3, d3)"
    by (cases "fold step [0..<reps] (s0, zeros)") auto
  have "\<forall>h\<in>set (snd (fold step [0..<reps] (s0, zeros))). js_ge h (Fin 0)"
  proof (rule fold_invariant[where P = "\<lambda>acc. \<forall>h\<in>set (snd acc). js_ge h (Fin 0)"])
    show "\<forall>h\<in>set (snd (s0, zeros)). js_ge h (Fin 0)" by (simp add: zeros_def)
  next
    fix i :: nat and a :: "p2 \<times> jsnum list"
    assume h: "\<forall>h\<in>set (snd a). js_ge h (Fin 0)"
    obtain t d where a: "a = (t, d)" by (cases a) auto
    define s1 where "s1 = (runBatch g ^^ burnin) (t\<lparr>p2_temperature := T1\<rparr>)"
    obtain s2 d2 where
      f1: "fold (recordData (runBatch g) mag 0) [0..<n1] (s1, d) = (s2, d2)"
      by (cases "fold (recordData (runBatch g) mag 0) [0..<n1] (s1, d)") auto
    have "\<forall>h\<in>set (snd (fold (recordData (runBatch g) mag 0) [0..<n1] (s1, d))). js_ge h (Fin 0)"
    proof (rule fold_invariant[where P = "\<lambda>acc. \<forall>h\<in>set (snd acc). js_ge h (Fin 0)"])
      show "\<forall>h\<in>set (snd (s1, d)). js_ge h (Fin 0)" using h a by simp
    qed (rule recordData_nonneg[OF m])
    then have h2: "\<forall>h\<in>set (snd (s2\<lparr>p2_temperature := T2\<rparr>, d2)). js_ge h (Fin 0)"
      by (simp add: f1)
    have "\<forall>h\<in>set (snd (fold (recordData (runBatch g) mag n1) [0..<n2]
              (s2\<lparr>p2_temperature := T2\<rparr>, d2))). js_ge h (Fin 0)"
      by (rule fold_invariant[where P = "\<lambda>acc. \<forall>h\<in>set (snd acc). js_ge h (Fin 0)"],
          rule recordData_nonneg[OF m], assumption, rule h2)
    then show "\<forall>h\<in>set (snd (step i a)). js_ge h (Fin 0)"
      by (simp add: step_def a Let_def s1_def[symmetric] f1)
  qed
  then have h1: "\<forall>h\<in>set d3. js_ge h (Fin 0)" by (simp add: f)
  have "data = map (\<lambda>x. js_div x (Fin (real reps))) d3"
    using assms(1) f
    by (simp add: stepResponse2_def Let_def mag_def[symmetric] s0_def[symmetric]
        zeros_def[symmetric] step_def)
  then show ?thesis using means_nonneg[OF h1 assms(3)] by simp
qed

lemma recordSweep1_nonneg:
  assumes "0 < g" and "\<forall>h\<in>set (snd (snd (snd acc))). js_ge h (Fin 0)"
  shows "\<forall>h\<in>set (snd (snd (snd (recordSweep1 g fn j acc)))). js_ge h (Fin 0)"
proof -
  obtain s Es Rs Ms where a: "acc = (s, Es, Rs, Ms)" by (cases acc) auto
  show ?thesis
    using accumulate_nonneg[of Ms "magnetization g (p1_lattice (fn s))" j] assms
    by (simp add: a recordSweep1_def Let_def magnetization_not_NaN)
qed

lemma equilibriumProperties_nonneg:
  assumes "equilibriumProperties g algo initState T burnin steps reps s
             = Inr (res, E_results, R_results, M_results, s')"
    and "0 < g" and "0 < reps"
  shows "\<forall>h\<in>set M_results. js_ge h (Fin 0)"
proof -
  define fn where "fn = (if algo = ''metro'' then runMetro1 g else runGlauber1 g)"
  define step where "step = (\<lambda>(i::nat) (s', acc).
      fold (recordSweep1 g fn) [0..<steps] ((fn ^^ burnin) (init1 g initState s'), acc))"
  define zeros where "zeros = replicate steps (Fin 0)"
  obtain s1 Es Rs Ms where
    f: "fold step [0..<reps] (s\<lparr>p1_temperature := T\<rparr>, zeros, zeros, zeros) = (s1, Es, Rs, Ms)"
    by (metis prod_cases4)
  have "\<forall>h\<in>set (snd (snd (snd (fold step [0..<reps]
          (s\<lparr>p1_temperature := T\<rparr>, zeros, zeros, zeros))))). js_ge h (Fin 0)"
  proof (rule fold_invariant[where P = "\<lambda>acc. \<forall>h\<in>set (snd (snd (snd acc))). js_ge h (Fin 0)"])
    show "\<forall>h\<in>set (snd (snd (snd (s\<lparr>p1_temperature := T\<rparr>, zeros, zeros, zeros)))).
            js_ge h (Fin 0)"
      by (simp add: zeros_def)
  next
    fix i :: nat and a :: "p1 \<times> jsnum list \<times> jsnum list \<times> jsnum list"
    assume h: "\<forall>h\<in>set (snd (snd (snd a))). js_ge h (Fin 0)"
    obtain t acc where a: "a = (t, acc)" by (cases a) auto
    have h': "\<forall>h\<in>set (snd (snd (snd ((fn ^^ burnin) (init1 g initState t), acc)))).
                js_ge h (Fin 0)"
      using h a by simp
    show "\<forall>h\<in>set (snd (snd (snd (step i a)))). js_ge h (Fin 0)"
      unfolding step_def a prod.case
      by (rule fold_invariant[where P = "\<lambda>acc. \<forall>h\<in>set (snd (snd (snd acc))). js_ge h (Fin 0)"],
          rule recordSweep1_nonneg[OF assms(2)], assumption, rule h')
  qed
  then have h1: "\<forall>h\<in>set Ms. js_ge h (Fin 0)" by (simp add: f)
  have "M_results = map (\<lambda>x. js_div x (Fin (real reps))) Ms"
    using assms(1) f
    by (simp add: equilibriumProperties_def Let_def fn_def[symmetric] zeros_def[symmetric] step_def
        split: if_splits sum.splits prod.splits)
  then show ?thesis using means_nonneg[OF h1 assms(3)] by simp
qed




lemma ov1: "overflow 1 = Fin 1" "overflow (- 1) = Fin (- 1)" "overflow 0 = Fin 0"
  using MAX_VALUE_ge_1 by (simp_all add: overflow_in_range)

lemma coords2: "rowMajor 2 = [(0,0),(1,0),(0,1),(1,1)]" "columnMajor 2 = [(0,0),(0,1),(1,0),(1,1)]"
  by (simp_all add: rowMajor_def columnMajor_def upt_rec)


lemma init_minus: "init1 2 ''minus'' (paused2\<lparr>p1_temperature := Fin 0\<rparr>)
   = paused2\<lparr>p1_temperature := Fin 0, p1_state := ''scrambled'', p1_lattice := down2\<rparr>"
  by (simp add: init1_def coords2 paused2_def setCell_def down2_def)

lemma dE: "calcDeltaE 2 down2 x y = 8" if "x < 2" "y < 2"
proof -
  have "x = 0 \<or> x = 1" "y = 0 \<or> y = 1" using that by auto
  then show ?thesis by (auto simp: calcDeltaE_def cell_def down2_def Let_def)
qed

lemma frozen: "boltzmann 8 (Fin 0) = Fin 0"
  using MAX_VALUE_pos by (simp add: boltzmann_def)

lemma step_frozen: "x < 2 \<Longrightarrow> y < 2 \<Longrightarrow> metroStep1 2 (Fin 0) (down2, always 0) (x, y) = (down2, always 0)"
  by (simp add: metroStep1_def dE frozen Let_def)

lemma sweep_frozen: "runMetro1 2 (paused2\<lparr>p1_temperature := Fin 0, p1_state := ''scrambled'', p1_lattice := down2\<rparr>)
  = paused2\<lparr>p1_temperature := Fin 0, p1_state := ''scrambled'', p1_lattice := down2\<rparr>"
  by (simp add: runMetro1_def coords2 step_frozen paused2_def)

lemma mag_down: "magnetization 2 down2 = Fin (- 1)"
  by (simp add: magnetization_def coords2 cell_def down2_def ov1)

lemma corr_down: "local_correlations 2 down2 = Fin 1"
  by (simp add: local_correlations_def coords2 dE ov1)

lemma energy_down: "calc_lattice_energy 2 down2 = - 8"
  by (simp add: calc_lattice_energy_def coords2 cell_def down2_def Let_def)

lemma run_down:
  "equilibriumProperties 2 ''metro'' ''minus'' (Fin 0) 0 1 1 paused2
     = Inr (\<lparr>R_mean = Fin 1, R_sdev = NaN, M_mean = Fin 1, M_sdev = NaN\<rparr>,
            [Fin (- 8)], [Fin 1], [Fin 1],
            paused2\<lparr>p1_temperature := Fin 0, p1_state := ''scrambled'', p1_lattice := down2\<rparr>)"
  using MAX_VALUE_ge_8
  by (simp add: equilibriumProperties_def Let_def init_minus recordSweep1_def sweep_frozen
      mag_down corr_down energy_down ov1 seriesStats_def reduce_add_def square_def js_sub_def
      overflow_in_range)

lemma stepResponse3_returns:
  "algoList algo = Own e \<Longrightarrow> \<not> isl (stepResponse3 g algo T1 T2 n1 n2 burnin reps s)"
  by (cases e) (simp add: stepResponse3_def)

lemma isl_triple: "isl (case p of (a, b, c) \<Rightarrow> Inr (f a b c)) = False"
  by (cases p) auto

lemma stepResponse4_returns:
  assumes "boundaryList (p4_boundaryRule s) \<noteq> None" and "boundaryList boundary \<noteq> None"
  shows "\<not> isl (stepResponse4 g algo boundary T1 T2 n1 n2 burnin reps s)"
proof -
  obtain b0 b1 where b: "boundaryList (p4_boundaryRule s) = Some b0" "boundaryList boundary = Some b1"
    using assms by auto
  obtain l0 r0 where i: "init4 g (p4_boundaryRule s) (p4_lattice s, p4_rng s) = Inr (l0, r0)"
    by (cases "b0 g (fold (\<lambda>(x, y) (l, r).
                       let (c, r') = coinFlip r in (setCell l x y (if c then 1 else - 1), r'))
                 (interiorCoords g) (p4_lattice s, p4_rng s))") (simp add: init4_def b Let_def)
  show ?thesis
    unfolding stepResponse4_def Let_def i b by (simp add: isl_triple)
qed


text \<open>
  As claim C10 states it, every reported per-sweep mean is at least 0. With no
  repetition (\<open>reps = 0\<close>) the harnesses return normally and every mean is
  \<open>0 / 0\<close>, which is NaN, and \<open>NaN >= 0\<close> is false.
\<close>

theorem magnetization_means_counterexample:
  "\<not> isl (equilibriumProperties 2 ''metro'' ''plus'' (Fin 1) 0 1 0 paused2)
   \<and> fst (snd (snd (snd (projr (equilibriumProperties 2 ''metro'' ''plus'' (Fin 1) 0 1 0 paused2)))))
       = [NaN]
   \<and> \<not> isl (stepResponse3 2 ''typewriter'' (Fin 1) (Fin 2) 1 1 0 0 bogus3)
   \<and> fst (snd (projr (stepResponse3 2 ''typewriter'' (Fin 1) (Fin 2) 1 1 0 0 bogus3))) = [NaN, NaN]
   \<and> \<not> js_ge NaN (Fin 0)"
  by (simp add: equilibriumProperties_def seriesStats_def reduce_add_def square_def js_sub_def
      stepResponse3_def stepSeries3_def algoList_def Let_def)


text \<open>
  C10, as the code has it. With at least one repetition, on a grid with at least
  one site, every per-sweep magnetization mean that \<open>equilibriumProperties\<close> and
  the \<open>stepResponse\<close> routines of programs 2, 3 and 4 return is at least 0: each
  recorded sweep adds \<open>Math.abs(magnetization())\<close> to its entry, whatever the sign of
  the magnetization.
\<close>

theorem magnetization_means_nonneg:
  assumes "0 < reps"
  shows
    "(0 < gridSize \<and> square_grid gridSize (p1_lattice s)
        \<and> \<not> isl (equilibriumProperties gridSize algo initState T burnin steps reps s) \<longrightarrow>
      list_all (\<lambda>m. js_ge m (Fin 0))
        (fst (snd (snd (snd (projr
           (equilibriumProperties gridSize algo initState T burnin steps reps s)))))))
     \<and> (0 < gridSize \<and> square_grid gridSize (p2_lattice s2) \<longrightarrow>
        list_all (\<lambda>m. js_ge m (Fin 0))
          (fst (stepResponse2 gridSize visitFn acceptFn T1 T2 T1_steps T2_steps burnin reps s2)))
     \<and> (0 < gridSize \<and> square_grid gridSize (p3_lattice s3)
          \<and> \<not> isl (stepResponse3 gridSize algo3 T1 T2 T1_steps T2_steps burnin reps s3) \<longrightarrow>
        list_all (\<lambda>m. js_ge m (Fin 0))
          (fst (snd (projr
             (stepResponse3 gridSize algo3 T1 T2 T1_steps T2_steps burnin reps s3)))))
     \<and> (2 < gridSize4 \<and> square_grid gridSize4 (p4_lattice s4)
          \<and> \<not> isl (stepResponse4 gridSize4 algo4 boundary T1 T2 T1_steps T2_steps burnin reps s4)
          \<longrightarrow>
        list_all (\<lambda>m. js_ge m (Fin 0))
          (fst (snd (projr
             (stepResponse4 gridSize4 algo4 boundary T1 T2 T1_steps T2_steps burnin reps s4)))))"
proof (intro conjI impI)
  assume a: "0 < gridSize \<and> square_grid gridSize (p1_lattice s)
        \<and> \<not> isl (equilibriumProperties gridSize algo initState T burnin steps reps s)"
  then obtain res Es Rs Ms s' where
    "equilibriumProperties gridSize algo initState T burnin steps reps s = Inr (res, Es, Rs, Ms, s')"
    by (cases "equilibriumProperties gridSize algo initState T burnin steps reps s") auto
  then show "list_all (\<lambda>m. js_ge m (Fin 0))
        (fst (snd (snd (snd (projr
           (equilibriumProperties gridSize algo initState T burnin steps reps s))))))"
    using equilibriumProperties_nonneg[of gridSize algo initState T burnin steps reps s] a assms
    by (simp add: list_all_iff)
next
  assume a: "0 < gridSize \<and> square_grid gridSize (p2_lattice s2)"
  obtain data s' where
    "stepResponse2 gridSize visitFn acceptFn T1 T2 T1_steps T2_steps burnin reps s2 = (data, s')"
    by (cases "stepResponse2 gridSize visitFn acceptFn T1 T2 T1_steps T2_steps burnin reps s2") auto
  then show "list_all (\<lambda>m. js_ge m (Fin 0))
          (fst (stepResponse2 gridSize visitFn acceptFn T1 T2 T1_steps T2_steps burnin reps s2))"
    using stepResponse2_nonneg[of gridSize visitFn acceptFn T1 T2 T1_steps T2_steps burnin reps s2]
      a assms
    by (simp add: list_all_iff)
next
  assume a: "0 < gridSize \<and> square_grid gridSize (p3_lattice s3)
          \<and> \<not> isl (stepResponse3 gridSize algo3 T1 T2 T1_steps T2_steps burnin reps s3)"
  then obtain rs Hs s' where
    "stepResponse3 gridSize algo3 T1 T2 T1_steps T2_steps burnin reps s3 = Inr (rs, Hs, s')"
    by (cases "stepResponse3 gridSize algo3 T1 T2 T1_steps T2_steps burnin reps s3") auto
  then show "list_all (\<lambda>m. js_ge m (Fin 0))
          (fst (snd (projr
             (stepResponse3 gridSize algo3 T1 T2 T1_steps T2_steps burnin reps s3))))"
    using stepResponse3_nonneg[of gridSize algo3 T1 T2 T1_steps T2_steps burnin reps s3] a assms
    by (simp add: list_all_iff)
next
  assume a: "2 < gridSize4 \<and> square_grid gridSize4 (p4_lattice s4)
          \<and> \<not> isl (stepResponse4 gridSize4 algo4 boundary T1 T2 T1_steps T2_steps burnin reps s4)"
  then obtain rs Hs s' where
    "stepResponse4 gridSize4 algo4 boundary T1 T2 T1_steps T2_steps burnin reps s4
       = Inr (rs, Hs, s')"
    by (cases "stepResponse4 gridSize4 algo4 boundary T1 T2 T1_steps T2_steps burnin reps s4") auto
  then show "list_all (\<lambda>m. js_ge m (Fin 0))
          (fst (snd (projr
             (stepResponse4 gridSize4 algo4 boundary T1 T2 T1_steps T2_steps burnin reps s4))))"
    using stepResponse4_nonneg[of gridSize4 algo4 boundary T1 T2 T1_steps T2_steps burnin reps s4]
      a assms
    by (simp add: list_all_iff)
qed

text \<open>
  An instance: at temperature 0 the lattice of down spins is frozen, its
  magnetization is \<open>-1\<close>, and the mean \<open>equilibriumProperties\<close> reports is \<open>1\<close>.
\<close>

theorem magnetization_means_nonneg_witness:
  "0 < (1::nat) \<and> 0 < (2::nat) \<and> square_grid 2 (p1_lattice paused2)
   \<and> equilibriumProperties 2 ''metro'' ''minus'' (Fin 0) 0 1 1 paused2
       = Inr (\<lparr>R_mean = Fin 1, R_sdev = NaN, M_mean = Fin 1, M_sdev = NaN\<rparr>,
              [Fin (- 8)], [Fin 1], [Fin 1],
              paused2\<lparr>p1_temperature := Fin 0, p1_state := ''scrambled'', p1_lattice := down2\<rparr>)
   \<and> magnetization 2 down2 = Fin (- 1)
   \<and> list_all (\<lambda>m. js_ge m (Fin 0))
        (fst (snd (snd (snd (projr
           (equilibriumProperties 2 ''metro'' ''minus'' (Fin 0) 0 1 1 paused2))))))
   \<and> square_grid 2 (p2_lattice rest2)
   \<and> list_all (\<lambda>m. js_ge m (Fin 0))
        (fst (stepResponse2 2 ''random'' ''G_rule'' (Fin 1) (Fin 2) 1 1 0 1 rest2))
   \<and> square_grid 2 (p3_lattice bogus3)
   \<and> \<not> isl (stepResponse3 2 ''diagonal'' (Fin 1) (Fin 2) 1 1 0 1 bogus3)
   \<and> list_all (\<lambda>m. js_ge m (Fin 0))
        (fst (snd (projr (stepResponse3 2 ''diagonal'' (Fin 1) (Fin 2) 1 1 0 1 bogus3))))
   \<and> 2 < (4::nat) \<and> square_grid 4 (p4_lattice rest4)
   \<and> \<not> isl (stepResponse4 4 ''metropolis'' ''zero'' (Fin 1) (Fin 2) 1 1 0 1 rest4)
   \<and> list_all (\<lambda>m. js_ge m (Fin 0))
        (fst (snd (projr (stepResponse4 4 ''metropolis'' ''zero'' (Fin 1) (Fin 2) 1 1 0 1 rest4))))"
proof -
  have r3: "\<not> isl (stepResponse3 2 ''diagonal'' (Fin 1) (Fin 2) 1 1 0 1 bogus3)"
    by (rule stepResponse3_returns) (simp add: algoList_def)
  have r4: "\<not> isl (stepResponse4 4 ''metropolis'' ''zero'' (Fin 1) (Fin 2) 1 1 0 1 rest4)"
    by (rule stepResponse4_returns) (simp_all add: boundaryList_def rest4_def)
  have g: "square_grid 2 (p1_lattice paused2)" "square_grid 2 (p2_lattice rest2)"
    "square_grid 2 (p3_lattice bogus3)" "square_grid 4 (p4_lattice rest4)"
    by (simp_all add: square_grid_def paused2_def rest2_def bogus3_def rest4_def wrap4_def)
  show ?thesis
    using magnetization_means_nonneg[where reps = 1 and gridSize = 2 and s = paused2
        and algo = "''metro''" and initState = "''minus''" and T = "Fin 0" and burnin = 0
        and steps = 1 and ?s2.0 = rest2 and visitFn = "''random''" and acceptFn = "''G_rule''"
        and ?T1.0 = "Fin 1" and ?T2.0 = "Fin 2" and ?T1_steps.0 = 1 and ?T2_steps.0 = 1
        and ?s3.0 = bogus3 and ?algo3.0 = "''diagonal''" and ?gridSize4.0 = 4
        and ?algo4.0 = "''metropolis''" and boundary = "''zero''" and ?s4.0 = rest4]
      r3 r4 g run_down mag_down
    by simp
qed


end
